theory Spec2Isabelle
  imports Main "HOL-Library.AList" "HOL-Library.Multiset"
begin

section \<open>Read-pair extraction of metasv (\<open>metasv/extract_pairs.py\<close>)\<close>

text \<open>
  The script fetches the alignments of a padded region of a BAM file, groups them by
  query name into two-slot pairs, resolves the missing mates, and writes the pairs an
  extraction function selects to paired FASTQ files. The code is Python 2: a \<open>str\<close> is
  a byte string, modelled as \<open>string\<close>; an \<open>int\<close> is unbounded, modelled as \<open>int\<close>.
\<close>

subsection \<open>Alignments\<close>

text \<open>
  The attributes of a pysam alignment that the script reads. The sequence, the
  quality and the CIGAR string are strings, as the data model of the specification has
  them.
\<close>

record alignment =
  qname :: string
  is_read1 :: bool
  is_reverse :: bool
  is_secondary :: bool
  is_proper_pair :: bool
  seq :: string
  qual :: string
  cigarstring :: string
  tlen :: int

subsection \<open>Complement table, sequence and quality\<close>

text \<open>
  \<open>compl_table = [chr(i) for i in xrange(256)]\<close>, then the four assignments at
  \<open>ord('A')\<close>, \<open>ord('C')\<close>, \<open>ord('G')\<close> and \<open>ord('T')\<close>.
\<close>

definition ord :: "char \<Rightarrow> nat" where
  "ord c = of_char c"

definition chr :: "nat \<Rightarrow> char" where
  "chr n = char_of n"

definition compl_table :: "char list" where
  "compl_table =
     (map chr [0..<256])
       [ord CHR ''A'' := CHR ''T'',
        ord CHR ''C'' := CHR ''G'',
        ord CHR ''G'' := CHR ''C'',
        ord CHR ''T'' := CHR ''A'']"

text \<open>
  \<open>compl(seq) = "".join([compl_table[ord(i)] for i in seq])\<close>. The index is below 256
  for every byte, so the lookup never leaves the table.
\<close>

definition compl :: "string \<Rightarrow> string" where
  "compl sq = map (\<lambda>i. compl_table ! ord i) sq"

text \<open>\<open>str.upper()\<close> on a byte string: the letters a to z move to A to Z.\<close>

definition upper_char :: "char \<Rightarrow> char" where
  "upper_char c = (if 97 \<le> ord c \<and> ord c \<le> 122 then chr (ord c - 32) else c)"

definition upper :: "string \<Rightarrow> string" where
  "upper s = map upper_char s"

definition get_sequence_quality :: "alignment \<Rightarrow> string \<times> string" where
  "get_sequence_quality aln =
     (if \<not> is_reverse aln then (upper (seq aln), qual aln)
      else (rev (compl (upper (seq aln))), rev (qual aln)))"

subsection \<open>FASTQ output\<close>

text \<open>
  A file object opened for writing: its name, the text written to it so far, and
  whether it has been closed.
\<close>

record fq_file =
  name :: string
  written :: string
  closed :: bool

text \<open>The \<open>%d\<close> conversion of a natural number.\<close>

fun fmt_d :: "nat \<Rightarrow> string" where
  "fmt_d n = (if n < 10 then [chr (48 + n)] else fmt_d (n div 10) @ [chr (48 + n mod 10)])"

declare fmt_d.simps [simp del]

text \<open>
  \<open>fd.write("@%s/%d\n%s\n+\n%s\n" % (aln.qname, end_id, sequence, quality))\<close>
\<close>

definition fastq_record :: "string \<Rightarrow> nat \<Rightarrow> string \<Rightarrow> string \<Rightarrow> string" where
  "fastq_record qn end_id sequence quality =
     ''@'' @ qn @ ''/'' @ fmt_d end_id @ [CHR 0x0A] @ sequence @ [CHR 0x0A] @ ''+'' @ [CHR 0x0A]
       @ quality @ [CHR 0x0A]"

definition write_read :: "fq_file \<Rightarrow> alignment \<Rightarrow> fq_file" where
  "write_read fd aln =
     (let end_id = (if is_read1 aln then 1 else 2);
          (sequence, quality) = get_sequence_quality aln
      in fd\<lparr>written := written fd @ fastq_record (qname aln) end_id sequence quality\<rparr>)"

subsection \<open>Extraction functions\<close>

definition is_all :: "alignment \<Rightarrow> alignment \<Rightarrow> bool" where
  "is_all aln mate =
     ((cigarstring aln = ''100M'' \<and> cigarstring mate = ''100M'')
      \<and> (is_proper_pair aln \<and> is_proper_pair mate))"

definition all_pair :: "alignment \<Rightarrow> alignment \<Rightarrow> bool" where
  "all_pair aln mate = True"

definition non_perfect :: "alignment \<Rightarrow> alignment \<Rightarrow> bool" where
  "non_perfect aln mate =
     (\<not> (cigarstring aln = ''100M'' \<and> cigarstring mate = ''100M''
         \<and> is_proper_pair aln \<and> is_proper_pair mate))"

text \<open>The bounds \<open>isize_min\<close> and \<open>isize_max\<close> default to 300 and 400 in the source.\<close>

definition discordant :: "alignment \<Rightarrow> alignment \<Rightarrow> int \<Rightarrow> int \<Rightarrow> bool" where
  "discordant aln mate isize_min isize_max =
     (if tlen aln = 0 then True
      else \<not> (isize_min \<le> \<bar>tlen aln\<bar> \<and> \<bar>tlen aln\<bar> \<le> isize_max))"

definition discordant_with_normal_orientation ::
  "alignment \<Rightarrow> alignment \<Rightarrow> int \<Rightarrow> int \<Rightarrow> bool" where
  "discordant_with_normal_orientation aln mate isize_min isize_max =
     (if tlen aln = 0 then True
      else if is_reverse aln \<and> is_reverse mate \<or> \<not> is_reverse aln \<and> \<not> is_reverse mate
        then False
      else \<not> (isize_min \<le> \<bar>tlen aln\<bar> \<and> \<bar>tlen aln\<bar> \<le> isize_max))"


subsection \<open>Errors, the runtime and the BAM file\<close>

text \<open>The exceptions of the script, as values.\<close>

datatype py_error = IndexError | ValueError | AttributeError

text \<open>
  An open \<open>pysam.Samfile\<close>. \<open>bam_fetch\<close> is \<open>bam.fetch\<close>: the alignments that overlap an
  interval of a chromosome, in the order of the file, or the exception pysam raises (a
  \<open>ValueError\<close> for a chromosome the file does not have, or for an interval that starts
  after its end), which the script does not catch. \<open>bam_mate\<close> is \<open>bam.mate\<close>: it looks
  a read's mate up, and \<open>None\<close> stands for the \<open>ValueError\<close> pysam raises when the mate is
  unmapped or not found, which is the exception the script catches.
\<close>

record samfile =
  bam_fetch :: "string \<Rightarrow> int \<Rightarrow> int \<Rightarrow> py_error + alignment list"
  bam_mate :: "alignment \<Rightarrow> alignment option"

text \<open>
  What the script takes from its surroundings: the BAM file behind a file name, the
  builtin \<open>int\<close> on strings (a parameter, so no theorem depends on which literals it
  accepts), and the order in which a dictionary hands out its values. Python 2 leaves
  that order unspecified: here the entries come sorted by a rank of their keys, which
  reaches every order of a dictionary as the rank varies.
\<close>

record runtime =
  Samfile :: "string \<Rightarrow> samfile"
  py_int :: "string \<Rightarrow> py_error + int"
  rank :: "string \<Rightarrow> nat"

text \<open>The lines the logger receives; the running time of the last line is left out.\<close>

datatype level = INFO | ERROR

datatype message =
    Extracting_reads string string int "string list"
  | Skipping_interval_too_close
  | Building_mate_dictionary nat
  | Too_many_reads
  | Examined_pairs nat
  | Extraction_counts "(string \<times> nat) list"

subsection \<open>The region string\<close>

text \<open>\<open>s.split(sep)\<close> for a separator of one character.\<close>

fun split :: "char \<Rightarrow> string \<Rightarrow> string list" where
  "split sep [] = [[]]"
| "split sep (c # cs) =
     (if c = sep then [] # split sep cs
      else (case split sep cs of
              [] \<Rightarrow> [[c]]
            | w # ws \<Rightarrow> (c # w) # ws))"

text \<open>\<open>xs[i]\<close> for an index that is not negative.\<close>

definition index :: "'a list \<Rightarrow> nat \<Rightarrow> py_error + 'a" where
  "index xs i = (if i < length xs then Inr (xs ! i) else Inl IndexError)"

text \<open>
  \<open>chr_name = region.split(':')[0]\<close>,
  \<open>chr_start = int(region.split(':')[1].split("-")[0]) - pad\<close>,
  \<open>chr_end = int(region.split(':')[1].split('-')[1]) + pad\<close>, in this order.
\<close>

definition parse_region :: "runtime \<Rightarrow> string \<Rightarrow> int \<Rightarrow> py_error + (string \<times> int \<times> int)" where
  "parse_region rt region pad =
     (case index (split CHR '':'' region) 0 of Inl e \<Rightarrow> Inl e | Inr chr_name \<Rightarrow>
     (case index (split CHR '':'' region) 1 of Inl e \<Rightarrow> Inl e | Inr r1 \<Rightarrow>
     (case index (split CHR ''-'' r1) 0 of Inl e \<Rightarrow> Inl e | Inr s1 \<Rightarrow>
     (case py_int rt s1 of Inl e \<Rightarrow> Inl e | Inr n1 \<Rightarrow>
     (let chr_start = n1 - pad in
     (case index (split CHR '':'' region) 1 of Inl e \<Rightarrow> Inl e | Inr r2 \<Rightarrow>
     (case index (split CHR ''-'' r2) 1 of Inl e \<Rightarrow> Inl e | Inr s2 \<Rightarrow>
     (case py_int rt s2 of Inl e \<Rightarrow> Inl e | Inr n2 \<Rightarrow>
     (let chr_end = n2 + pad in
      Inr (chr_name, chr_start, chr_end))))))))))"

subsection \<open>Reading the region and grouping by query name\<close>

text \<open>
  The branch on \<open>chr_start < 0\<close>: the lines logged, the calls of \<open>bam.fetch\<close> made, and
  \<open>aln_list\<close>; or the exception of \<open>bam.fetch\<close>, which leaves the function at once.
\<close>

definition read_region ::
  "samfile \<Rightarrow> string \<Rightarrow> int \<Rightarrow> int
     \<Rightarrow> py_error
         + ((level \<times> message) list \<times> (string \<times> int \<times> int) list \<times> alignment list)" where
  "read_region bam chr_name chr_start chr_end =
     (if chr_start < 0 then Inr ([(ERROR, Skipping_interval_too_close)], [], [])
      else (case bam_fetch bam chr_name chr_start chr_end of
              Inl e \<Rightarrow> Inl e
            | Inr fetched \<Rightarrow>
                Inr ([], [(chr_name, chr_start, chr_end)],
                     filter (\<lambda>aln. \<not> is_secondary aln) fetched)))"

text \<open>
  A pair is the two-slot list \<open>[None, None]\<close> of the source; the dictionary is an
  association list in the order of insertion.
\<close>

type_synonym aln_pair = "alignment option \<times> alignment option"

definition slot_get :: "nat \<Rightarrow> aln_pair \<Rightarrow> alignment option" where
  "slot_get i p = (if i = 0 then fst p else snd p)"

definition slot_set :: "nat \<Rightarrow> alignment option \<Rightarrow> aln_pair \<Rightarrow> aln_pair" where
  "slot_set i v p = (if i = 0 then (v, snd p) else (fst p, v))"

text \<open>
  One turn of the grouping loop: \<open>if aln.qname not in aln_dict: aln_dict[aln.qname] =
  [None, None]\<close>, then \<open>aln_dict[aln.qname][0 if aln.is_read1 else 1] = aln\<close>.
\<close>

definition add_aln :: "(string \<times> aln_pair) list \<Rightarrow> alignment \<Rightarrow> (string \<times> aln_pair) list" where
  "add_aln aln_dict aln =
     (let d = (if map_of aln_dict (qname aln) = None
               then AList.update (qname aln) (None, None) aln_dict
               else aln_dict)
      in AList.map_entry (qname aln) (slot_set (if is_read1 aln then 0 else 1) (Some aln)) d)"

definition build_dict :: "alignment list \<Rightarrow> (string \<times> aln_pair) list" where
  "build_dict aln_list = foldl add_aln [] aln_list"

definition dict_values :: "runtime \<Rightarrow> (string \<times> aln_pair) list \<Rightarrow> aln_pair list" where
  "dict_values rt d = map snd (sort_key (\<lambda>kv. rank rt (fst kv)) d)"

subsection \<open>Resolving the mates\<close>

text \<open>
  One turn of the loop over \<open>aln_dict.values()\<close>, on the lookups made so far and
  \<open>aln_pairs\<close>. A lookup on an empty slot (both slots empty) would fail inside pysam; the
  model makes it an error.
\<close>

definition resolve_step ::
  "samfile \<Rightarrow> alignment list \<times> aln_pair list \<Rightarrow> aln_pair
     \<Rightarrow> py_error + (alignment list \<times> aln_pair list)" where
  "resolve_step bam st aln_pair =
     (let (calls, aln_pairs) = st;
          missing_index = (if fst aln_pair = None then 0
                           else (if snd aln_pair = None then 1 else 2))
      in if missing_index < (2::nat) then
           (case slot_get (1 - missing_index) aln_pair of
              None \<Rightarrow> Inl AttributeError
            | Some a \<Rightarrow>
                (let mate_v = bam_mate bam a
                 in if mate_v \<noteq> None
                    then Inr (calls @ [a], aln_pairs @ [slot_set missing_index mate_v aln_pair])
                    else Inr (calls @ [a], aln_pairs)))
         else Inr (calls, aln_pairs @ [aln_pair]))"

fun resolve_all ::
  "samfile \<Rightarrow> alignment list \<times> aln_pair list \<Rightarrow> aln_pair list
     \<Rightarrow> py_error + (alignment list \<times> aln_pair list)" where
  "resolve_all bam st [] = Inr st"
| "resolve_all bam st (p # ps) =
     (case resolve_step bam st p of
        Inl e \<Rightarrow> Inl e
      | Inr st' \<Rightarrow> resolve_all bam st' ps)"

text \<open>
  The branch on \<open>len(aln_dict) <= max_read_pairs\<close>: the lines logged, the lookups
  made and \<open>aln_pairs\<close>.
\<close>

definition resolve_mates ::
  "runtime \<Rightarrow> samfile \<Rightarrow> alignment list \<Rightarrow> (string \<times> aln_pair) list \<Rightarrow> int
     \<Rightarrow> py_error + ((level \<times> message) list \<times> alignment list \<times> aln_pair list)" where
  "resolve_mates rt bam aln_list aln_dict max_read_pairs =
     (if int (length aln_dict) \<le> max_read_pairs then
        (case resolve_all bam ([], []) (dict_values rt aln_dict) of
           Inl e \<Rightarrow> Inl e
         | Inr (calls, aln_pairs) \<Rightarrow>
             Inr ([(INFO, Building_mate_dictionary (length aln_list))], calls, aln_pairs))
      else Inr ([(INFO, Too_many_reads)], [], []))"

subsection \<open>Filtering and writing\<close>

text \<open>An extraction function: its \<open>__name__\<close> and what it returns on a pair.\<close>

record extract_fn =
  fn_name :: string
  fn_call :: "alignment \<Rightarrow> alignment \<Rightarrow> bool"

definition open_w :: "string \<Rightarrow> fq_file" where
  "open_w path = \<lparr>name = path, written = [], closed = False\<rparr>"

definition close :: "fq_file \<Rightarrow> fq_file" where
  "close fd = fd\<lparr>closed := True\<rparr>"

definition open_ends :: "string \<Rightarrow> string list \<Rightarrow> (fq_file \<times> fq_file) list" where
  "open_ends prefix extract_fn_names =
     map (\<lambda>nm. (open_w (prefix @ ''_'' @ nm @ ''_1.fq''), open_w (prefix @ ''_'' @ nm @ ''_2.fq'')))
       extract_fn_names"

text \<open>
  The body of the inner loop, for one function and its index: when the function accepts
  the pair, both reads are written to the files at that index and its count goes up.
\<close>

definition emit_fn ::
  "alignment \<Rightarrow> alignment \<Rightarrow> (fq_file \<times> fq_file) list \<times> nat list \<Rightarrow> nat \<times> extract_fn
     \<Rightarrow> (fq_file \<times> fq_file) list \<times> nat list" where
  "emit_fn first second st ife =
     (let (ends, selected_pair_counts) = st;
          (fn_index, extract_fn) = ife
      in if fn_call extract_fn first second
         then (ends[fn_index := (write_read (fst (ends ! fn_index)) first,
                                 write_read (snd (ends ! fn_index)) second)],
               selected_pair_counts[fn_index := selected_pair_counts ! fn_index + 1])
         else (ends, selected_pair_counts))"

text \<open>
  \<open>for first, second in aln_pairs\<close>: an extraction function is made for alignments, so
  an empty slot that reached it is the \<open>AttributeError\<close> of reading an attribute of
  \<open>None\<close>.
\<close>

fun emit_all ::
  "extract_fn list \<Rightarrow> (fq_file \<times> fq_file) list \<times> nat list \<Rightarrow> aln_pair list
     \<Rightarrow> py_error + ((fq_file \<times> fq_file) list \<times> nat list)" where
  "emit_all extract_fns st [] = Inr st"
| "emit_all extract_fns st ((Some first, Some second) # ps) =
     emit_all extract_fns (foldl (emit_fn first second) st (enumerate 0 extract_fns)) ps"
| "emit_all extract_fns st (_ # ps) = Inl AttributeError"

subsection \<open>The extraction\<close>

text \<open>
  What one call leaves behind: the lines logged, the calls of \<open>bam.fetch\<close> and of
  \<open>bam.mate\<close>, the list \<open>aln_pairs\<close>, the output files after they are closed, and the
  value returned.
\<close>

record outcome =
  messages :: "(level \<times> message) list"
  fetch_calls :: "(string \<times> int \<times> int) list"
  mate_calls :: "alignment list"
  aln_pairs :: "aln_pair list"
  ends :: "(fq_file \<times> fq_file) list"
  returned :: "((string \<times> string) \<times> nat) list"

definition extract_read_pairs ::
  "runtime \<Rightarrow> string \<Rightarrow> string \<Rightarrow> string \<Rightarrow> extract_fn list \<Rightarrow> int \<Rightarrow> int
     \<Rightarrow> py_error + outcome" where
  "extract_read_pairs rt bamname region prefix extract_fns pad max_read_pairs =
     (let extract_fn_names = map fn_name extract_fns;
          log0 = [(INFO, Extracting_reads bamname region pad extract_fn_names)]
      in (case parse_region rt region pad of
            Inl e \<Rightarrow> Inl e
          | Inr (chr_name, chr_start, chr_end) \<Rightarrow>
     (let selected_pair_counts = replicate (length extract_fn_names) 0;
          bam = Samfile rt bamname
      in (case read_region bam chr_name chr_start chr_end of
            Inl e \<Rightarrow> Inl e
          | Inr (log1, fetches, aln_list) \<Rightarrow>
     (let aln_dict = build_dict aln_list
      in (case resolve_mates rt bam aln_list aln_dict max_read_pairs of
            Inl e \<Rightarrow> Inl e
          | Inr (log2, calls, pairs) \<Rightarrow>
     (let ends0 = open_ends prefix extract_fn_names
      in (case emit_all extract_fns (ends0, selected_pair_counts) pairs of
            Inl e \<Rightarrow> Inl e
          | Inr (ends1, counts) \<Rightarrow>
     (let ends2 = map (\<lambda>(end1, end2). (close end1, close end2)) ends1
      in Inr \<lparr>messages = log0 @ log1 @ log2
                 @ [(INFO, Examined_pairs (length pairs)),
                    (INFO, Extraction_counts (zip extract_fn_names counts))],
              fetch_calls = fetches,
              mate_calls = calls,
              aln_pairs = pairs,
              ends = ends2,
              returned = zip (map (\<lambda>e. (name (fst e), name (snd e))) ends2) counts\<rparr>)))))))))"

subsection \<open>A small BAM file to run the extraction on\<close>

text \<open>An \<open>int\<close> that reads plain decimal numerals and refuses everything else.\<close>

fun read_digits :: "nat \<Rightarrow> string \<Rightarrow> py_error + int" where
  "read_digits acc [] = Inr (int acc)"
| "read_digits acc (c # cs) =
     (if 48 \<le> ord c \<and> ord c \<le> 57 then read_digits (10 * acc + (ord c - 48)) cs
      else Inl ValueError)"

definition decimal :: "string \<Rightarrow> py_error + int" where
  "decimal s = (if s = [] then Inl ValueError else read_digits 0 s)"

definition read :: "string \<Rightarrow> bool \<Rightarrow> bool \<Rightarrow> int \<Rightarrow> alignment" where
  "read qn first reverse t =
     \<lparr>qname = qn, is_read1 = first, is_reverse = reverse, is_secondary = False,
      is_proper_pair = True, seq = ''acgtn'', qual = ''ABCDE'', cigarstring = ''5M'',
      tlen = t\<rparr>"

text \<open>
  Four pairs: \<open>p1\<close> within the insert-size bounds, \<open>p2\<close> outside them, \<open>p3\<close> with its
  second read outside the region and no mate to be found, \<open>p4\<close> with template length 0
  and its second read outside the region, found by the lookup. The file has the one
  chromosome \<open>chr1\<close>: a fetch on another one, or on an interval that starts after its end,
  raises \<open>ValueError\<close>.
\<close>

definition small_reads :: "alignment list" where
  "small_reads =
     [read ''p1'' True False 350, read ''p1'' False True (- 350),
      read ''p2'' True False 900, read ''p2'' False True (- 900),
      read ''p3'' True False 500,
      read ''p4'' True False 0]"

definition small_bam :: samfile where
  "small_bam =
     \<lparr>bam_fetch = (\<lambda>chrom start stop.
        if chrom = ''chr1'' \<and> start \<le> stop then Inr small_reads else Inl ValueError),
      bam_mate = (\<lambda>aln. if aln = read ''p4'' True False 0 then Some (read ''p4'' False True 0)
                      else None)\<rparr>"

definition small_runtime :: runtime where
  "small_runtime = \<lparr>Samfile = (\<lambda>bamname. small_bam), py_int = decimal, rank = (\<lambda>k. 0)\<rparr>"

definition fn_all_pair :: extract_fn where
  "fn_all_pair = \<lparr>fn_name = ''all_pair'', fn_call = all_pair\<rparr>"


definition fn_discordant :: "int \<Rightarrow> int \<Rightarrow> extract_fn" where
  "fn_discordant isize_min isize_max =
     \<lparr>fn_name = ''discordant'',
      fn_call = (\<lambda>aln mate. discordant aln mate isize_min isize_max)\<rparr>"


subsection \<open>What the theorems speak of\<close>

text \<open>The record \<open>write_read\<close> appends for an alignment.\<close>

definition fastq_text :: "alignment \<Rightarrow> string" where
  "fastq_text aln =
     fastq_record (qname aln) (if is_read1 aln then 1 else 2)
       (fst (get_sequence_quality aln)) (snd (get_sequence_quality aln))"

text \<open>
  The pairs of a list with both slots filled, and those of them an extraction
  function accepts.
\<close>

definition complete_pairs :: "aln_pair list \<Rightarrow> (alignment \<times> alignment) list" where
  "complete_pairs ps = [(a, b). (Some a, Some b) \<leftarrow> ps]"

definition selected :: "extract_fn \<Rightarrow> aln_pair list \<Rightarrow> (alignment \<times> alignment) list" where
  "selected f ps = filter (\<lambda>(a, b). fn_call f a b) (complete_pairs ps)"

text \<open>
  The invariant of the grouping loop: the keys are distinct, no entry has both slots
  empty, and a read sits under its own query name.
\<close>

definition dict_ok :: "(string \<times> aln_pair) list \<Rightarrow> bool" where
  "dict_ok d \<longleftrightarrow>
     distinct (map fst d)
     \<and> (\<forall>k p. map_of d k = Some p \<longrightarrow>
          p \<noteq> (None, None) \<and> (\<forall>a. fst p = Some a \<or> snd p = Some a \<longrightarrow> qname a = k))"

text \<open>
  The mate resolution as the specification words it, entry by entry: an entry with one
  slot filled costs one lookup, on the read it holds; it gives the completed pair when
  the lookup finds a mate and nothing when it does not; an entry with both slots filled
  is kept as it is, with no lookup.
\<close>

fun spec_lookups :: "aln_pair \<Rightarrow> alignment list" where
  "spec_lookups (Some a, None) = [a]"
| "spec_lookups (None, Some b) = [b]"
| "spec_lookups (Some a, Some b) = []"
| "spec_lookups (None, None) = []"

fun spec_resolved :: "samfile \<Rightarrow> aln_pair \<Rightarrow> aln_pair list" where
  "spec_resolved bam (Some a, Some b) = [(Some a, Some b)]"
| "spec_resolved bam (Some a, None) =
     (case bam_mate bam a of None \<Rightarrow> [] | Some m \<Rightarrow> [(Some a, Some m)])"
| "spec_resolved bam (None, Some b) =
     (case bam_mate bam b of None \<Rightarrow> [] | Some m \<Rightarrow> [(Some m, Some b)])"
| "spec_resolved bam (None, None) = []"

text \<open>
  What a call leaves in its output files, for the list \<open>pairs\<close> of resolved pairs: one
  pair of closed files for each extraction function, named after the prefix and the
  function, holding the reads of the pairs the function accepts, with their number
  returned.
\<close>

definition channels_of :: "string \<Rightarrow> extract_fn list \<Rightarrow> aln_pair list \<Rightarrow> outcome \<Rightarrow> bool" where
  "channels_of prefix fns pairs r \<longleftrightarrow>
     length (ends r) = length fns \<and> length (returned r) = length fns
     \<and> (\<forall>i < length fns.
           name (fst (ends r ! i)) = prefix @ ''_'' @ fn_name (fns ! i) @ ''_1.fq''
         \<and> name (snd (ends r ! i)) = prefix @ ''_'' @ fn_name (fns ! i) @ ''_2.fq''
         \<and> closed (fst (ends r ! i)) \<and> closed (snd (ends r ! i))
         \<and> written (fst (ends r ! i)) =
             concat (map (\<lambda>(a, b). fastq_text a) (selected (fns ! i) pairs))
         \<and> written (snd (ends r ! i)) =
             concat (map (\<lambda>(a, b). fastq_text b) (selected (fns ! i) pairs))
         \<and> returned r ! i =
             ((prefix @ ''_'' @ fn_name (fns ! i) @ ''_1.fq'',
               prefix @ ''_'' @ fn_name (fns ! i) @ ''_2.fq''),
              length (selected (fns ! i) pairs)))"

section \<open>Properties of the pure functions\<close>

subsection \<open>The complement table\<close>

lemma ord_lt_256: "ord c < 256"
  by (simp add: ord_def)

lemma ord_eq_iff: "ord c = ord d \<longleftrightarrow> c = d"
  by (simp add: ord_def)

lemma chr_ord: "chr (ord c) = c"
  by (simp add: ord_def chr_def)

lemma ord_bases:
  "ord CHR ''A'' = 65" "ord CHR ''C'' = 67" "ord CHR ''G'' = 71" "ord CHR ''T'' = 84"
  by (simp_all add: ord_def)

lemma range_table_nth: "map chr [0..<256] ! ord c = c"
  using ord_lt_256 [of c] by (simp add: chr_ord)

lemma compl_table_nth:
  "compl_table ! ord c =
     (if c = CHR ''A'' then CHR ''T''
      else if c = CHR ''C'' then CHR ''G''
      else if c = CHR ''G'' then CHR ''C''
      else if c = CHR ''T'' then CHR ''A''
      else c)"
proof -
  have n: "ord c < length (map chr [0..<256])"
    using ord_lt_256 [of c] by simp
  have e: "c = CHR ''A'' \<longleftrightarrow> ord c = 65" "c = CHR ''C'' \<longleftrightarrow> ord c = 67"
    "c = CHR ''G'' \<longleftrightarrow> ord c = 71" "c = CHR ''T'' \<longleftrightarrow> ord c = 84"
    using ord_eq_iff [of c] ord_bases by metis+
  show ?thesis
    unfolding compl_table_def e ord_bases
    using n range_table_nth [of c] by (simp add: nth_list_update)
qed

lemma length_compl: "length (compl sq) = length sq"
  by (simp add: compl_def)

lemma fmt_d_1: "fmt_d 1 = ''1''" "fmt_d (Suc 0) = ''1''"
  by (simp_all add: fmt_d.simps chr_def char_of_eq_iff)

lemma fmt_d_2: "fmt_d 2 = ''2''"
  by (simp add: fmt_d.simps chr_def char_of_eq_iff)

lemma upper_char_simps:
  "upper_char CHR ''a'' = CHR ''A''" "upper_char CHR ''c'' = CHR ''C''"
  "upper_char CHR ''g'' = CHR ''G''" "upper_char CHR ''t'' = CHR ''T''"
  "upper_char CHR ''n'' = CHR ''N''"
  "upper_char CHR ''A'' = CHR ''A''" "upper_char CHR ''C'' = CHR ''C''"
  "upper_char CHR ''G'' = CHR ''G''" "upper_char CHR ''T'' = CHR ''T''"
  "upper_char CHR ''N'' = CHR ''N''"
  by (simp_all add: upper_char_def ord_def chr_def char_of_eq_iff)

text \<open>
  C10. \<open>compl\<close> maps A to T, C to G, G to C and T to A, and every other character to
  itself; so in the reverse complement of a sequence a character that is not one of the
  four bases (an N, say) keeps its value and moves to the mirrored position.
\<close>

theorem compl_swaps_bases_keeps_others:
  "compl sq =
     map (\<lambda>c. if c = CHR ''A'' then CHR ''T''
              else if c = CHR ''C'' then CHR ''G''
              else if c = CHR ''G'' then CHR ''C''
              else if c = CHR ''T'' then CHR ''A''
              else c) sq
   \<and> (\<forall>i < length sq. sq ! i \<notin> {CHR ''A'', CHR ''C'', CHR ''G'', CHR ''T''}
         \<longrightarrow> rev (compl sq) ! (length sq - 1 - i) = sq ! i)"
proof (intro conjI allI impI)
  show "compl sq =
     map (\<lambda>c. if c = CHR ''A'' then CHR ''T''
              else if c = CHR ''C'' then CHR ''G''
              else if c = CHR ''G'' then CHR ''C''
              else if c = CHR ''T'' then CHR ''A''
              else c) sq"
    unfolding compl_def by (rule map_cong) (simp_all only: compl_table_nth)
next
  fix i
  assume i: "i < length sq"
    and other: "sq ! i \<notin> {CHR ''A'', CHR ''C'', CHR ''G'', CHR ''T''}"
  have "rev (compl sq) ! (length sq - 1 - i) = compl sq ! i"
    using i by (simp add: rev_nth length_compl)
  also have "\<dots> = compl_table ! ord (sq ! i)"
    using i by (simp add: compl_def)
  also have "\<dots> = sq ! i"
    using other by (simp add: compl_table_nth)
  finally show "rev (compl sq) ! (length sq - 1 - i) = sq ! i" .
qed

theorem compl_swaps_bases_keeps_others_witness:
  "compl ''ACGTNan-'' = ''TGCANan-'' \<and> rev (compl ''ACNGT'') ! 2 = CHR ''N''"
  using compl_swaps_bases_keeps_others [of "''ACGTNan-''"]
    compl_swaps_bases_keeps_others [of "''ACNGT''"]
  by simp

subsection \<open>Sequence and quality of a written read\<close>

text \<open>
  C1. \<open>write_read\<close> appends one FASTQ record to the file. For a read on the reverse
  strand the sequence of the record is the reverse complement of the upper-cased raw
  sequence and its quality is the raw quality reversed; for a read on the forward strand
  the sequence is the upper-cased raw sequence and the quality is the raw quality.
\<close>

theorem write_read_orientation:
  "written (write_read fd aln) =
     written fd @ fastq_record (qname aln) (if is_read1 aln then 1 else 2)
       (fst (get_sequence_quality aln)) (snd (get_sequence_quality aln))
   \<and> (is_reverse aln \<longrightarrow>
        fst (get_sequence_quality aln) = rev (compl (upper (seq aln)))
        \<and> snd (get_sequence_quality aln) = rev (qual aln))
   \<and> (\<not> is_reverse aln \<longrightarrow>
        fst (get_sequence_quality aln) = upper (seq aln)
        \<and> snd (get_sequence_quality aln) = qual aln)"
  by (simp add: write_read_def get_sequence_quality_def Let_def split: prod.splits)

theorem write_read_orientation_witness:
  "written (write_read \<lparr>name = ''out_all_pair_2.fq'', written = [], closed = False\<rparr>
      \<lparr>qname = ''r1'', is_read1 = False, is_reverse = True, is_secondary = False,
       is_proper_pair = True, seq = ''acgTN'', qual = ''ABCDE'', cigarstring = ''5M'',
       tlen = 350\<rparr>)
     = ''@r1/2'' @ [CHR 0x0A] @ ''NACGT'' @ [CHR 0x0A] @ ''+'' @ [CHR 0x0A] @ ''EDCBA'' @ [CHR 0x0A]
   \<and> written (write_read \<lparr>name = ''out_all_pair_1.fq'', written = [], closed = False\<rparr>
      \<lparr>qname = ''r1'', is_read1 = True, is_reverse = False, is_secondary = False,
       is_proper_pair = True, seq = ''acgTN'', qual = ''ABCDE'', cigarstring = ''5M'',
       tlen = 350\<rparr>)
     = ''@r1/1'' @ [CHR 0x0A] @ ''ACGTN'' @ [CHR 0x0A] @ ''+'' @ [CHR 0x0A] @ ''ABCDE'' @ [CHR 0x0A]"
  using write_read_orientation
      [of "\<lparr>name = ''out_all_pair_2.fq'', written = [], closed = False\<rparr>"
          "\<lparr>qname = ''r1'', is_read1 = False, is_reverse = True, is_secondary = False,
            is_proper_pair = True, seq = ''acgTN'', qual = ''ABCDE'', cigarstring = ''5M'',
            tlen = 350\<rparr>"]
    write_read_orientation
      [of "\<lparr>name = ''out_all_pair_1.fq'', written = [], closed = False\<rparr>"
          "\<lparr>qname = ''r1'', is_read1 = True, is_reverse = False, is_secondary = False,
            is_proper_pair = True, seq = ''acgTN'', qual = ''ABCDE'', cigarstring = ''5M'',
            tlen = 350\<rparr>"]
  by (simp add: get_sequence_quality_def fastq_record_def fmt_d_1 fmt_d_2 upper_def
        upper_char_simps compl_def compl_table_nth)

subsection \<open>The extraction predicates\<close>

text \<open>
  C3. On every pair of alignments \<open>non_perfect\<close> is the negation of \<open>is_all\<close>.
\<close>

theorem non_perfect_is_not_is_all:
  "non_perfect aln mate = (\<not> is_all aln mate)"
  by (simp add: non_perfect_def is_all_def)

text \<open>
  C4. With the default bounds 300 and 400, \<open>discordant\<close> is true exactly when the
  template length of the first read is 0, or its absolute value is below 300 or above
  400.
\<close>

theorem discordant_default_bounds:
  "discordant aln mate 300 400 =
     (tlen aln = 0 \<or> \<bar>tlen aln\<bar> < 300 \<or> 400 < \<bar>tlen aln\<bar>)"
  by (auto simp add: discordant_def)

text \<open>
  C5. \<open>discordant_with_normal_orientation\<close> is true when the template length is 0;
  for a template length other than 0 it is false when both reads are on the same
  strand, whatever the insert size; and when the strands differ it is the value of
  \<open>discordant\<close> on the same arguments.
\<close>

theorem discordant_with_normal_orientation_cases:
  "(tlen aln = 0 \<longrightarrow> discordant_with_normal_orientation aln mate lo hi)
   \<and> (tlen aln \<noteq> 0 \<and> is_reverse aln = is_reverse mate
        \<longrightarrow> \<not> discordant_with_normal_orientation aln mate lo hi)
   \<and> (tlen aln \<noteq> 0 \<and> is_reverse aln \<noteq> is_reverse mate
        \<longrightarrow> discordant_with_normal_orientation aln mate lo hi = discordant aln mate lo hi)"
  by (auto simp add: discordant_with_normal_orientation_def discordant_def)

theorem discordant_with_normal_orientation_cases_witness:
  "discordant_with_normal_orientation
     \<lparr>qname = ''r1'', is_read1 = True, is_reverse = False, is_secondary = False,
      is_proper_pair = True, seq = ''ACGT'', qual = ''IIII'', cigarstring = ''4M'', tlen = 0\<rparr>
     \<lparr>qname = ''r1'', is_read1 = False, is_reverse = False, is_secondary = False,
      is_proper_pair = True, seq = ''ACGT'', qual = ''IIII'', cigarstring = ''4M'', tlen = 0\<rparr>
     300 400
   \<and> \<not> discordant_with_normal_orientation
     \<lparr>qname = ''r2'', is_read1 = True, is_reverse = True, is_secondary = False,
      is_proper_pair = False, seq = ''ACGT'', qual = ''IIII'', cigarstring = ''4M'', tlen = 900\<rparr>
     \<lparr>qname = ''r2'', is_read1 = False, is_reverse = True, is_secondary = False,
      is_proper_pair = False, seq = ''ACGT'', qual = ''IIII'', cigarstring = ''4M'',
      tlen = - 900\<rparr>
     300 400
   \<and> discordant_with_normal_orientation
     \<lparr>qname = ''r3'', is_read1 = True, is_reverse = False, is_secondary = False,
      is_proper_pair = False, seq = ''ACGT'', qual = ''IIII'', cigarstring = ''4M'', tlen = 900\<rparr>
     \<lparr>qname = ''r3'', is_read1 = False, is_reverse = True, is_secondary = False,
      is_proper_pair = False, seq = ''ACGT'', qual = ''IIII'', cigarstring = ''4M'',
      tlen = - 900\<rparr>
     300 400"
  using
    discordant_with_normal_orientation_cases
      [of "\<lparr>qname = ''r1'', is_read1 = True, is_reverse = False, is_secondary = False,
            is_proper_pair = True, seq = ''ACGT'', qual = ''IIII'', cigarstring = ''4M'',
            tlen = 0\<rparr>"
          "\<lparr>qname = ''r1'', is_read1 = False, is_reverse = False, is_secondary = False,
            is_proper_pair = True, seq = ''ACGT'', qual = ''IIII'', cigarstring = ''4M'',
            tlen = 0\<rparr>" 300 400]
    discordant_with_normal_orientation_cases
      [of "\<lparr>qname = ''r2'', is_read1 = True, is_reverse = True, is_secondary = False,
            is_proper_pair = False, seq = ''ACGT'', qual = ''IIII'', cigarstring = ''4M'',
            tlen = 900\<rparr>"
          "\<lparr>qname = ''r2'', is_read1 = False, is_reverse = True, is_secondary = False,
            is_proper_pair = False, seq = ''ACGT'', qual = ''IIII'', cigarstring = ''4M'',
            tlen = - 900\<rparr>" 300 400]
    discordant_with_normal_orientation_cases
      [of "\<lparr>qname = ''r3'', is_read1 = True, is_reverse = False, is_secondary = False,
            is_proper_pair = False, seq = ''ACGT'', qual = ''IIII'', cigarstring = ''4M'',
            tlen = 900\<rparr>"
          "\<lparr>qname = ''r3'', is_read1 = False, is_reverse = True, is_secondary = False,
            is_proper_pair = False, seq = ''ACGT'', qual = ''IIII'', cigarstring = ''4M'',
            tlen = - 900\<rparr>" 300 400]
  by (simp add: discordant_def)

section \<open>Properties of the extraction\<close>

subsection \<open>The small BAM file, evaluated\<close>

lemma small_parse: "parse_region small_runtime ''chr1:100-200'' 0 = Inr (''chr1'', 100, 200)"
  by (simp add: parse_region_def index_def small_runtime_def decimal_def ord_def)

lemma small_bam_of: "Samfile small_runtime bamname = small_bam"
  by (simp add: small_runtime_def)

lemma small_region:
  "read_region small_bam ''chr1'' 100 200 = Inr ([], [(''chr1'', 100, 200)], small_reads)"
  by (simp add: read_region_def small_bam_def small_reads_def read_def)

lemma small_names: "length (remdups (map qname small_reads)) = 4"
  by (simp add: small_reads_def read_def)

lemma small_dict:
  "build_dict small_reads =
     [(''p1'', Some (read ''p1'' True False 350), Some (read ''p1'' False True (- 350))),
      (''p2'', Some (read ''p2'' True False 900), Some (read ''p2'' False True (- 900))),
      (''p3'', Some (read ''p3'' True False 500), None),
      (''p4'', Some (read ''p4'' True False 0), None)]"
  by (simp add: build_dict_def add_aln_def slot_set_def small_reads_def read_def)

lemma small_mates:
  "bam_mate small_bam (read ''p3'' True False 500) = None"
  "bam_mate small_bam (read ''p4'' True False 0) = Some (read ''p4'' False True 0)"
  by (simp_all add: small_bam_def read_def)

subsection \<open>The region string and the output files\<close>

lemma parse_region_pad:
  "parse_region rt region 0 = Inr (c, st, en)
     \<Longrightarrow> parse_region rt region pad = Inr (c, st - pad, en + pad)"
  by (auto simp add: parse_region_def Let_def split: sum.splits)

lemma write_read_eq: "write_read fd aln = fd\<lparr>written := written fd @ fastq_text aln\<rparr>"
  by (simp add: write_read_def fastq_text_def Let_def split: prod.splits)

lemma emit_fn_simp:
  "emit_fn a b (es, cs) (i, f) =
     (if fn_call f a b
      then (es[i := (write_read (fst (es ! i)) a, write_read (snd (es ! i)) b)],
            cs[i := cs ! i + 1])
      else (es, cs))"
  by (simp add: emit_fn_def)

lemma emit_fns_nth:
  "foldl (emit_fn a b) (es, cs) (enumerate k fns) = (es', cs')
   \<Longrightarrow> length es' = length es \<and> length cs' = length cs
      \<and> (\<forall>i < length es. es' ! i =
            (if k \<le> i \<and> i < k + length fns \<and> fn_call (fns ! (i - k)) a b
             then (write_read (fst (es ! i)) a, write_read (snd (es ! i)) b) else es ! i))
      \<and> (\<forall>i < length cs. cs' ! i =
            (if k \<le> i \<and> i < k + length fns \<and> fn_call (fns ! (i - k)) a b
             then cs ! i + 1 else cs ! i))"
proof (induction fns arbitrary: k es cs)
  case Nil
  then show ?case by auto
next
  case (Cons f fs)
  show ?case
  proof (cases "fn_call f a b")
    case True
    let ?es1 = "es[k := (write_read (fst (es ! k)) a, write_read (snd (es ! k)) b)]"
    let ?cs1 = "cs[k := cs ! k + 1]"
    from Cons.prems True
    have "foldl (emit_fn a b) (?es1, ?cs1) (enumerate (Suc k) fs) = (es', cs')"
      by (simp add: emit_fn_simp)
    from Cons.IH [OF this] show ?thesis
      using True by (auto simp add: nth_list_update nth_Cons' less_Suc_eq_le Suc_diff_le)
  next
    case False
    from Cons.prems False
    have "foldl (emit_fn a b) (es, cs) (enumerate (Suc k) fs) = (es', cs')"
      by (simp add: emit_fn_simp)
    from Cons.IH [OF this] show ?thesis
      using False by (auto simp add: nth_Cons' less_Suc_eq_le Suc_diff_le)
  qed
qed

lemma selected_Nil: "selected f [] = []"
  by (simp add: selected_def complete_pairs_def)

lemma selected_Cons:
  "selected f ((Some a, Some b) # ps) =
     (if fn_call f a b then (a, b) # selected f ps else selected f ps)"
  by (simp add: selected_def complete_pairs_def)

lemma name_write_read: "name (write_read fd aln) = name fd"
  by (simp add: write_read_eq)

lemma closed_write_read: "closed (write_read fd aln) = closed fd"
  by (simp add: write_read_eq)

lemma written_write_read: "written (write_read fd aln) = written fd @ fastq_text aln"
  by (simp add: write_read_eq)

lemma emit_all_channels:
  assumes "\<forall>p \<in> set ps. \<exists>a b. p = (Some a, Some b)"
    and "length es = length fns" and "length cs = length fns"
  shows "\<exists>es' cs'. emit_all fns (es, cs) ps = Inr (es', cs')
     \<and> length es' = length fns \<and> length cs' = length fns
     \<and> (\<forall>i < length fns.
           name (fst (es' ! i)) = name (fst (es ! i))
         \<and> name (snd (es' ! i)) = name (snd (es ! i))
         \<and> closed (fst (es' ! i)) = closed (fst (es ! i))
         \<and> closed (snd (es' ! i)) = closed (snd (es ! i))
         \<and> written (fst (es' ! i)) =
             written (fst (es ! i)) @ concat (map (\<lambda>(a, b). fastq_text a) (selected (fns ! i) ps))
         \<and> written (snd (es' ! i)) =
             written (snd (es ! i)) @ concat (map (\<lambda>(a, b). fastq_text b) (selected (fns ! i) ps))
         \<and> cs' ! i = cs ! i + length (selected (fns ! i) ps))"
  using assms
proof (induction ps arbitrary: es cs)
  case Nil
  then show ?case by (simp add: selected_Nil)
next
  case (Cons p ps)
  from Cons.prems(1) obtain a b where p: "p = (Some a, Some b)"
    by auto
  obtain es1 cs1 where step: "foldl (emit_fn a b) (es, cs) (enumerate 0 fns) = (es1, cs1)"
    by (cases "foldl (emit_fn a b) (es, cs) (enumerate 0 fns)")
  note n = emit_fns_nth [OF step]
  have len: "length es1 = length fns" "length cs1 = length fns"
    using n Cons.prems by simp_all
  have rest: "\<forall>p \<in> set ps. \<exists>a b. p = (Some a, Some b)"
    using Cons.prems(1) by simp
  from Cons.IH [OF rest len] obtain es' cs' where
    run: "emit_all fns (es1, cs1) ps = Inr (es', cs')"
    and l': "length es' = length fns" "length cs' = length fns"
    and ch: "\<forall>i < length fns.
           name (fst (es' ! i)) = name (fst (es1 ! i))
         \<and> name (snd (es' ! i)) = name (snd (es1 ! i))
         \<and> closed (fst (es' ! i)) = closed (fst (es1 ! i))
         \<and> closed (snd (es' ! i)) = closed (snd (es1 ! i))
         \<and> written (fst (es' ! i)) =
             written (fst (es1 ! i)) @ concat (map (\<lambda>(a, b). fastq_text a) (selected (fns ! i) ps))
         \<and> written (snd (es' ! i)) =
             written (snd (es1 ! i)) @ concat (map (\<lambda>(a, b). fastq_text b) (selected (fns ! i) ps))
         \<and> cs' ! i = cs1 ! i + length (selected (fns ! i) ps)"
    by blast
  have e1: "es1 ! i = (if fn_call (fns ! i) a b
       then (write_read (fst (es ! i)) a, write_read (snd (es ! i)) b) else es ! i)"
    and c1: "cs1 ! i = (if fn_call (fns ! i) a b then cs ! i + 1 else cs ! i)"
    if "i < length fns" for i
    using n that Cons.prems(2,3) by simp_all
  have "emit_all fns (es, cs) (p # ps) = Inr (es', cs')"
    using p step run by simp
  moreover have "\<forall>i < length fns.
           name (fst (es' ! i)) = name (fst (es ! i))
         \<and> name (snd (es' ! i)) = name (snd (es ! i))
         \<and> closed (fst (es' ! i)) = closed (fst (es ! i))
         \<and> closed (snd (es' ! i)) = closed (snd (es ! i))
         \<and> written (fst (es' ! i)) =
             written (fst (es ! i)) @ concat (map (\<lambda>(a, b). fastq_text a) (selected (fns ! i) (p # ps)))
         \<and> written (snd (es' ! i)) =
             written (snd (es ! i)) @ concat (map (\<lambda>(a, b). fastq_text b) (selected (fns ! i) (p # ps)))
         \<and> cs' ! i = cs ! i + length (selected (fns ! i) (p # ps))"
  proof (intro allI impI)
    fix i assume i: "i < length fns"
    from ch i e1 [OF i] c1 [OF i] show "name (fst (es' ! i)) = name (fst (es ! i))
         \<and> name (snd (es' ! i)) = name (snd (es ! i))
         \<and> closed (fst (es' ! i)) = closed (fst (es ! i))
         \<and> closed (snd (es' ! i)) = closed (snd (es ! i))
         \<and> written (fst (es' ! i)) =
             written (fst (es ! i)) @ concat (map (\<lambda>(a, b). fastq_text a) (selected (fns ! i) (p # ps)))
         \<and> written (snd (es' ! i)) =
             written (snd (es ! i)) @ concat (map (\<lambda>(a, b). fastq_text b) (selected (fns ! i) (p # ps)))
         \<and> cs' ! i = cs ! i + length (selected (fns ! i) (p # ps))"
      by (simp add: p selected_Cons name_write_read closed_write_read written_write_read)
  qed
  ultimately show ?case using l' by blast
qed

subsection \<open>The dictionary\<close>

lemma add_aln_map_of:
  "map_of (add_aln d a) =
     (map_of d)(qname a \<mapsto>
        slot_set (if is_read1 a then 0 else 1) (Some a)
          (case map_of d (qname a) of None \<Rightarrow> (None, None) | Some p \<Rightarrow> p))"
  by (cases "map_of d (qname a)")
     (auto simp add: add_aln_def Let_def map_of_map_entry update_conv' fun_eq_iff)

lemma add_aln_keys: "fst ` set (add_aln d a) = insert (qname a) (fst ` set d)"
proof (cases "map_of d (qname a)")
  case None
  then show ?thesis by (simp add: add_aln_def dom_map_entry dom_update)
next
  case (Some p)
  then have "qname a \<in> fst ` set d"
    by (metis map_of_eq_None_iff option.distinct(1))
  with Some show ?thesis by (auto simp add: add_aln_def dom_map_entry)
qed

lemma add_aln_distinct: "distinct (map fst d) \<Longrightarrow> distinct (map fst (add_aln d a))"
  by (simp add: add_aln_def Let_def distinct_map_entry distinct_update)

lemma slot_set_Some:
  "slot_set i (Some a) p \<noteq> (None, None)"
  "fst (slot_set i (Some a) p) = Some x \<or> snd (slot_set i (Some a) p) = Some x
     \<Longrightarrow> x = a \<or> fst p = Some x \<or> snd p = Some x"
  by (auto simp add: slot_set_def split: if_splits)

lemma dict_ok_add_aln:
  assumes "dict_ok d"
  shows "dict_ok (add_aln d a)"
  unfolding dict_ok_def
proof (intro conjI allI impI)
  show "distinct (map fst (add_aln d a))"
    using assms by (simp add: dict_ok_def add_aln_distinct)
next
  fix k p
  assume kp: "map_of (add_aln d a) k = Some p"
  show "p \<noteq> (None, None)"
  proof (cases "k = qname a")
    case True
    with kp show ?thesis by (auto simp add: add_aln_map_of slot_set_Some(1))
  next
    case False
    with kp have "map_of d k = Some p" by (simp add: add_aln_map_of)
    with assms show ?thesis unfolding dict_ok_def by blast
  qed
next
  fix k p x
  assume kp: "map_of (add_aln d a) k = Some p"
    and x: "fst p = Some x \<or> snd p = Some x"
  show "qname x = k"
  proof (cases "k = qname a")
    case True
    let ?base = "case map_of d (qname a) of None \<Rightarrow> (None, None) | Some q \<Rightarrow> q"
    from kp True have p: "p = slot_set (if is_read1 a then 0 else 1) (Some a) ?base"
      by (simp add: add_aln_map_of)
    from slot_set_Some(2) [OF x [unfolded p]]
    consider "x = a" | "fst ?base = Some x \<or> snd ?base = Some x" by blast
    then show ?thesis
    proof cases
      case 1
      with True show ?thesis by simp
    next
      case 2
      then obtain q where q: "map_of d (qname a) = Some q" "fst q = Some x \<or> snd q = Some x"
        by (cases "map_of d (qname a)") auto
      with assms have "qname x = qname a" unfolding dict_ok_def by blast
      with True show ?thesis by simp
    qed
  next
    case False
    with kp have "map_of d k = Some p" by (simp add: add_aln_map_of)
    with assms x show ?thesis unfolding dict_ok_def by blast
  qed
qed

lemma dict_ok_foldl: "dict_ok d \<Longrightarrow> dict_ok (foldl add_aln d alns)"
  by (induction alns arbitrary: d) (simp_all add: dict_ok_add_aln)

lemma keys_foldl: "fst ` set (foldl add_aln d alns) = fst ` set d \<union> qname ` set alns"
  by (induction alns arbitrary: d) (auto simp add: add_aln_keys)

lemma dict_ok_build: "dict_ok (build_dict alns)"
  unfolding build_dict_def by (rule dict_ok_foldl) (simp add: dict_ok_def)

lemma keys_build: "fst ` set (build_dict alns) = qname ` set alns"
  by (simp add: build_dict_def keys_foldl)

lemma length_build: "length (build_dict alns) = card (qname ` set alns)"
proof -
  have "distinct (map fst (build_dict alns))"
    using dict_ok_build [of alns] by (simp add: dict_ok_def)
  then have "card (set (map fst (build_dict alns))) = length (map fst (build_dict alns))"
    by (rule distinct_card)
  then show ?thesis by (simp add: keys_build)
qed

subsection \<open>The mate resolution\<close>

lemma resolve_step_eq:
  "p \<noteq> (None, None)
     \<Longrightarrow> resolve_step bam (calls, pairs) p =
           Inr (calls @ spec_lookups p, pairs @ spec_resolved bam p)"
  by (cases p rule: spec_lookups.cases)
     (auto simp add: resolve_step_def slot_get_def slot_set_def split: option.splits)

lemma resolve_all_eq:
  "\<forall>p \<in> set vs. p \<noteq> (None, None)
     \<Longrightarrow> resolve_all bam (calls, pairs) vs =
           Inr (calls @ concat (map spec_lookups vs), pairs @ concat (map (spec_resolved bam) vs))"
  by (induction vs arbitrary: calls pairs) (simp_all add: resolve_step_eq)

lemma mset_dict_values: "mset (dict_values rt d) = mset (map snd d)"
  by (simp add: dict_values_def)

lemma set_dict_values: "set (dict_values rt d) = snd ` set d"
  by (simp add: dict_values_def)

lemma dict_ok_entry:
  assumes "dict_ok d" and "(k, p) \<in> set d"
  shows "p \<noteq> (None, None)" and "fst p = Some a \<or> snd p = Some a \<Longrightarrow> qname a = k"
proof -
  from assms have m: "map_of d k = Some p"
    by (simp add: dict_ok_def)
  with assms(1) show "p \<noteq> (None, None)"
    unfolding dict_ok_def by blast
  from m assms(1) show "fst p = Some a \<or> snd p = Some a \<Longrightarrow> qname a = k"
    unfolding dict_ok_def by blast
qed

lemma dict_ok_unique:
  "dict_ok d \<Longrightarrow> (k, p) \<in> set d \<Longrightarrow> (k, q) \<in> set d \<Longrightarrow> p = q"
  by (metis dict_ok_def map_of_is_SomeI option.inject)

lemma dict_values_filled: "dict_ok d \<Longrightarrow> \<forall>p \<in> set (dict_values rt d). p \<noteq> (None, None)"
  by (auto simp add: set_dict_values dest: dict_ok_entry(1))

lemma spec_resolved_complete: "q \<in> set (spec_resolved bam p) \<Longrightarrow> \<exists>a b. q = (Some a, Some b)"
  by (cases p rule: spec_lookups.cases) (auto split: option.splits)

lemma mset_concat_map_cong:
  "mset xs = mset ys \<Longrightarrow> mset (concat (map f xs)) = mset (concat (map f ys))"
proof -
  assume e: "mset xs = mset ys"
  have "mset (concat (map f zs)) = (\<Sum>z \<in># mset zs. mset (f z))" for zs
    by (induction zs) simp_all
  with e show ?thesis by simp
qed

lemma resolve_mates_eq:
  assumes "dict_ok d" and "int (length d) \<le> max_read_pairs"
  shows "resolve_mates rt bam alns d max_read_pairs =
     Inr ([(INFO, Building_mate_dictionary (length alns))],
          concat (map spec_lookups (dict_values rt d)),
          concat (map (spec_resolved bam) (dict_values rt d)))"
  using assms resolve_all_eq [OF dict_values_filled [OF assms(1)], of bam "[]" "[]" rt]
  by (simp add: resolve_mates_def)

lemma resolve_mates_skip:
  "max_read_pairs < int (length d)
     \<Longrightarrow> resolve_mates rt bam alns d max_read_pairs = Inr ([(INFO, Too_many_reads)], [], [])"
  by (simp add: resolve_mates_def)

subsection \<open>One call, from the parsed region to the closed files\<close>

lemma open_ends_nth:
  "i < length nms \<Longrightarrow> open_ends prefix nms ! i =
     (open_w (prefix @ ''_'' @ nms ! i @ ''_1.fq''), open_w (prefix @ ''_'' @ nms ! i @ ''_2.fq''))"
  by (simp add: open_ends_def)

lemma length_open_ends: "length (open_ends prefix nms) = length nms"
  by (simp add: open_ends_def)

lemma extract_read_pairs_run:
  assumes parse: "parse_region rt region pad = Inr (chr_name, chr_start, chr_end)"
    and rd: "read_region (Samfile rt bamname) chr_name chr_start chr_end = Inr (log1, fetches, alns)"
    and res: "resolve_mates rt (Samfile rt bamname) alns (build_dict alns) max_read_pairs
                = Inr (log2, calls, pairs)"
    and complete: "\<forall>p \<in> set pairs. \<exists>a b. p = (Some a, Some b)"
  shows "\<exists>r. extract_read_pairs rt bamname region prefix fns pad max_read_pairs = Inr r
     \<and> messages r =
         [(INFO, Extracting_reads bamname region pad (map fn_name fns))] @ log1 @ log2
         @ [(INFO, Examined_pairs (length pairs)),
            (INFO, Extraction_counts (zip (map fn_name fns) (map snd (returned r))))]
     \<and> fetch_calls r = fetches \<and> mate_calls r = calls \<and> aln_pairs r = pairs
     \<and> length (ends r) = length fns \<and> length (returned r) = length fns
     \<and> (\<forall>i < length fns.
           name (fst (ends r ! i)) = prefix @ ''_'' @ fn_name (fns ! i) @ ''_1.fq''
         \<and> name (snd (ends r ! i)) = prefix @ ''_'' @ fn_name (fns ! i) @ ''_2.fq''
         \<and> closed (fst (ends r ! i)) \<and> closed (snd (ends r ! i))
         \<and> written (fst (ends r ! i)) =
             concat (map (\<lambda>(a, b). fastq_text a) (selected (fns ! i) pairs))
         \<and> written (snd (ends r ! i)) =
             concat (map (\<lambda>(a, b). fastq_text b) (selected (fns ! i) pairs))
         \<and> returned r ! i =
             ((prefix @ ''_'' @ fn_name (fns ! i) @ ''_1.fq'',
               prefix @ ''_'' @ fn_name (fns ! i) @ ''_2.fq''),
              length (selected (fns ! i) pairs)))"
proof -
  let ?nms = "map fn_name fns"
  let ?es = "open_ends prefix ?nms"
  let ?cs = "replicate (length ?nms) (0::nat)"
  have l: "length ?es = length fns" "length ?cs = length fns"
    by (simp_all add: length_open_ends)
  from emit_all_channels [OF complete l] obtain es' cs' where
    run: "emit_all fns (?es, ?cs) pairs = Inr (es', cs')"
    and l': "length es' = length fns" "length cs' = length fns"
    and ch: "\<forall>i < length fns.
           name (fst (es' ! i)) = name (fst (?es ! i))
         \<and> name (snd (es' ! i)) = name (snd (?es ! i))
         \<and> closed (fst (es' ! i)) = closed (fst (?es ! i))
         \<and> closed (snd (es' ! i)) = closed (snd (?es ! i))
         \<and> written (fst (es' ! i)) =
             written (fst (?es ! i)) @ concat (map (\<lambda>(a, b). fastq_text a) (selected (fns ! i) pairs))
         \<and> written (snd (es' ! i)) =
             written (snd (?es ! i)) @ concat (map (\<lambda>(a, b). fastq_text b) (selected (fns ! i) pairs))
         \<and> cs' ! i = ?cs ! i + length (selected (fns ! i) pairs)"
    by blast
  let ?ends2 = "map (\<lambda>(end1, end2). (close end1, close end2)) es'"
  let ?r = "\<lparr>messages = [(INFO, Extracting_reads bamname region pad ?nms)] @ log1 @ log2
                 @ [(INFO, Examined_pairs (length pairs)),
                    (INFO, Extraction_counts (zip ?nms cs'))],
              fetch_calls = fetches, mate_calls = calls, aln_pairs = pairs, ends = ?ends2,
              returned = zip (map (\<lambda>e. (name (fst e), name (snd e))) ?ends2) cs'\<rparr>"
  have eq: "extract_read_pairs rt bamname region prefix fns pad max_read_pairs = Inr ?r"
    using parse rd res run by (simp add: extract_read_pairs_def Let_def)
  have chan: "name (fst (ends ?r ! i)) = prefix @ ''_'' @ fn_name (fns ! i) @ ''_1.fq''
         \<and> name (snd (ends ?r ! i)) = prefix @ ''_'' @ fn_name (fns ! i) @ ''_2.fq''
         \<and> closed (fst (ends ?r ! i)) \<and> closed (snd (ends ?r ! i))
         \<and> written (fst (ends ?r ! i)) =
             concat (map (\<lambda>(a, b). fastq_text a) (selected (fns ! i) pairs))
         \<and> written (snd (ends ?r ! i)) =
             concat (map (\<lambda>(a, b). fastq_text b) (selected (fns ! i) pairs))
         \<and> returned ?r ! i =
             ((prefix @ ''_'' @ fn_name (fns ! i) @ ''_1.fq'',
               prefix @ ''_'' @ fn_name (fns ! i) @ ''_2.fq''),
              length (selected (fns ! i) pairs))" if i: "i < length fns" for i
  proof -
    from ch i have c: "name (fst (es' ! i)) = name (fst (?es ! i))"
      "name (snd (es' ! i)) = name (snd (?es ! i))"
      "written (fst (es' ! i)) =
         written (fst (?es ! i)) @ concat (map (\<lambda>(a, b). fastq_text a) (selected (fns ! i) pairs))"
      "written (snd (es' ! i)) =
         written (snd (?es ! i)) @ concat (map (\<lambda>(a, b). fastq_text b) (selected (fns ! i) pairs))"
      "cs' ! i = ?cs ! i + length (selected (fns ! i) pairs)"
      by blast+
    have o: "?es ! i = (open_w (prefix @ ''_'' @ fn_name (fns ! i) @ ''_1.fq''),
                        open_w (prefix @ ''_'' @ fn_name (fns ! i) @ ''_2.fq''))"
      using i by (simp add: open_ends_nth)
    show ?thesis
      using i l' c unfolding o
      by (simp add: close_def open_w_def case_prod_beta)
  qed
  have f1: "messages ?r =
         [(INFO, Extracting_reads bamname region pad (map fn_name fns))] @ log1 @ log2
         @ [(INFO, Examined_pairs (length pairs)),
            (INFO, Extraction_counts (zip (map fn_name fns) (map snd (returned ?r))))]"
    using l' by simp
  have f2: "fetch_calls ?r = fetches" "mate_calls ?r = calls" "aln_pairs ?r = pairs"
    by simp_all
  have f3: "length (ends ?r) = length fns" "length (returned ?r) = length fns"
    using l' by simp_all
  from chan have f4: "\<forall>i < length fns.
           name (fst (ends ?r ! i)) = prefix @ ''_'' @ fn_name (fns ! i) @ ''_1.fq''
         \<and> name (snd (ends ?r ! i)) = prefix @ ''_'' @ fn_name (fns ! i) @ ''_2.fq''
         \<and> closed (fst (ends ?r ! i)) \<and> closed (snd (ends ?r ! i))
         \<and> written (fst (ends ?r ! i)) =
             concat (map (\<lambda>(a, b). fastq_text a) (selected (fns ! i) pairs))
         \<and> written (snd (ends ?r ! i)) =
             concat (map (\<lambda>(a, b). fastq_text b) (selected (fns ! i) pairs))
         \<and> returned ?r ! i =
             ((prefix @ ''_'' @ fn_name (fns ! i) @ ''_1.fq'',
               prefix @ ''_'' @ fn_name (fns ! i) @ ''_2.fq''),
              length (selected (fns ! i) pairs))"
    by blast
  show ?thesis
    by (rule exI [of _ ?r]) (use eq f1 f2 f3 f4 in blast)
qed

subsection \<open>Calls that extract nothing\<close>

lemma extract_nothing:
  assumes parse: "parse_region rt region pad = Inr (chr_name, chr_start, chr_end)"
    and rd: "read_region (Samfile rt bamname) chr_name chr_start chr_end = Inr (log1, fetches, alns)"
    and res: "resolve_mates rt (Samfile rt bamname) alns (build_dict alns) max_read_pairs
                = Inr (log2, [], [])"
  shows "\<exists>r. extract_read_pairs rt bamname region prefix fns pad max_read_pairs = Inr r
     \<and> set log1 \<union> set log2 \<subseteq> set (messages r)
     \<and> set (messages r) \<subseteq> set log1 \<union> set log2 \<union> {(INFO, Extracting_reads bamname region pad (map fn_name fns)), (INFO, Examined_pairs 0), (INFO, Extraction_counts (zip (map fn_name fns) (map snd (returned r))))}
     \<and> fetch_calls r = fetches \<and> mate_calls r = [] \<and> aln_pairs r = []
     \<and> length (ends r) = length fns
     \<and> (\<forall>e \<in> set (ends r). written (fst e) = [] \<and> written (snd e) = [])
     \<and> map snd (returned r) = replicate (length fns) 0"
proof -
  have c: "\<forall>p \<in> set ([] :: aln_pair list). \<exists>a b. p = (Some a, Some b)"
    by simp
  from extract_read_pairs_run [OF parse rd res c, of prefix fns]
  obtain r where r: "extract_read_pairs rt bamname region prefix fns pad max_read_pairs = Inr r"
    and m: "messages r =
         [(INFO, Extracting_reads bamname region pad (map fn_name fns))] @ log1 @ log2
         @ [(INFO, Examined_pairs (length ([] :: aln_pair list))),
            (INFO, Extraction_counts (zip (map fn_name fns) (map snd (returned r))))]"
    and f: "fetch_calls r = fetches" "mate_calls r = []" "aln_pairs r = []"
    and l: "length (ends r) = length fns" "length (returned r) = length fns"
    and ch: "\<forall>i < length fns.
           written (fst (ends r ! i)) =
             concat (map (\<lambda>(a, b). fastq_text a) (selected (fns ! i) []))
         \<and> written (snd (ends r ! i)) =
             concat (map (\<lambda>(a, b). fastq_text b) (selected (fns ! i) []))
         \<and> returned r ! i =
             ((prefix @ ''_'' @ fn_name (fns ! i) @ ''_1.fq'',
               prefix @ ''_'' @ fn_name (fns ! i) @ ''_2.fq''),
              length (selected (fns ! i) []))"
    by blast
  have w: "\<forall>e \<in> set (ends r). written (fst e) = [] \<and> written (snd e) = []"
  proof
    fix e assume "e \<in> set (ends r)"
    then obtain i where "i < length fns" "e = ends r ! i"
      using l by (auto simp add: in_set_conv_nth)
    with ch show "written (fst e) = [] \<and> written (snd e) = []"
      by (simp add: selected_Nil)
  qed
  have z: "map snd (returned r) = replicate (length fns) 0"
    using l ch by (intro nth_equalityI) (simp_all add: selected_Nil)
  from m have m1: "set log1 \<union> set log2 \<subseteq> set (messages r)"
    by auto
  from m have m2: "set (messages r) \<subseteq> set log1 \<union> set log2 \<union> {(INFO, Extracting_reads bamname region pad (map fn_name fns)), (INFO, Examined_pairs 0), (INFO, Extraction_counts (zip (map fn_name fns) (map snd (returned r))))}"
    by auto
  from r m1 m2 f l(1) w z show ?thesis by blast
qed

lemma build_dict_Nil: "build_dict [] = []"
  by (simp add: build_dict_def)

lemma dict_values_Nil: "dict_values rt [] = []"
  by (simp add: dict_values_def)

lemma resolve_mates_Nil:
  "\<exists>log2. resolve_mates rt bam [] [] max_read_pairs = Inr (log2, [], [])
      \<and> set log2 \<subseteq> {(INFO, Building_mate_dictionary 0), (INFO, Too_many_reads)}"
  by (simp add: resolve_mates_def dict_values_Nil)

text \<open>
  C2. When the start of the region minus the padding is negative, the call returns
  normally: it logs the error, never calls \<open>bam.fetch\<close> (nor \<open>bam.mate\<close>), resolves no
  pair, leaves every output file empty and returns the count 0 for every extraction
  function. Here \<open>start\<close> is what the region string gives before padding.
\<close>

theorem negative_start_extracts_nothing:
  assumes "parse_region rt region 0 = Inr (chr_name, start, stop)"
    and "start - pad < 0"
  shows "\<exists>r. extract_read_pairs rt bamname region prefix extract_fns pad max_read_pairs = Inr r
     \<and> (ERROR, Skipping_interval_too_close) \<in> set (messages r)
     \<and> fetch_calls r = [] \<and> mate_calls r = [] \<and> aln_pairs r = []
     \<and> length (ends r) = length extract_fns
     \<and> (\<forall>e \<in> set (ends r). written (fst e) = [] \<and> written (snd e) = [])
     \<and> map snd (returned r) = replicate (length extract_fns) 0"
proof -
  have parse: "parse_region rt region pad = Inr (chr_name, start - pad, stop + pad)"
    using assms(1) by (rule parse_region_pad)
  have rd: "read_region (Samfile rt bamname) chr_name (start - pad) (stop + pad)
      = Inr ([(ERROR, Skipping_interval_too_close)], [], [])"
    using assms(2) by (simp add: read_region_def)
  obtain log2 where
    res: "resolve_mates rt (Samfile rt bamname) [] (build_dict []) max_read_pairs = Inr (log2, [], [])"
    using resolve_mates_Nil [of rt "Samfile rt bamname" max_read_pairs]
    by (auto simp add: build_dict_Nil)
  from extract_nothing [OF parse rd res, of prefix extract_fns]
  show ?thesis by auto
qed

theorem negative_start_extracts_nothing_witness:
  "parse_region small_runtime ''chr1:100-200'' 0 = Inr (''chr1'', 100, 200)
   \<and> (100 :: int) - 101 < 0
   \<and> (\<exists>r. extract_read_pairs small_runtime ''in.bam'' ''chr1:100-200'' ''out''
             [fn_discordant 300 400, fn_all_pair] 101 1000 = Inr r
        \<and> (ERROR, Skipping_interval_too_close) \<in> set (messages r)
        \<and> fetch_calls r = [] \<and> mate_calls r = [] \<and> aln_pairs r = []
        \<and> length (ends r) = 2
        \<and> map (\<lambda>e. (written (fst e), written (snd e))) (ends r) = [([], []), ([], [])]
        \<and> map snd (returned r) = [0, 0])"
proof -
  have h1: "parse_region small_runtime ''chr1:100-200'' 0 = Inr (''chr1'', 100, 200)"
    by (simp add: parse_region_def index_def small_runtime_def decimal_def ord_def)
  have h2: "(100 :: int) - 101 < 0"
    by simp
  from negative_start_extracts_nothing [OF h1 h2, of "''in.bam''" "''out''"
      "[fn_discordant 300 400, fn_all_pair]" 1000]
  obtain r where r: "extract_read_pairs small_runtime ''in.bam'' ''chr1:100-200'' ''out''
             [fn_discordant 300 400, fn_all_pair] 101 1000 = Inr r"
    and p: "(ERROR, Skipping_interval_too_close) \<in> set (messages r)"
      "fetch_calls r = []" "mate_calls r = []" "aln_pairs r = []"
      "length (ends r) = length [fn_discordant 300 400, fn_all_pair]"
      "\<forall>e \<in> set (ends r). written (fst e) = [] \<and> written (snd e) = []"
      "map snd (returned r) = replicate (length [fn_discordant 300 400, fn_all_pair]) 0"
    by blast
  from p(5) obtain e1 e2 where e: "ends r = [e1, e2]"
    by (cases "ends r"; cases "tl (ends r)"; cases "tl (tl (ends r))") auto
  with p(6) have w: "map (\<lambda>e. (written (fst e), written (snd e))) (ends r) = [([], []), ([], [])]"
    by simp
  from p(7) have z: "map snd (returned r) = [0, 0]"
    by (simp add: numeral_2_eq_2)
  from h1 h2 r p(1-4) e w z show ?thesis by auto
qed

subsection \<open>The ceiling on the number of pairs\<close>

lemma resolved_complete:
  "\<forall>p \<in> set (concat (map (spec_resolved bam) vs)). \<exists>a b. p = (Some a, Some b)"
  by (auto dest: spec_resolved_complete)

lemma length_build_dict: "length (build_dict alns) = length (remdups (map qname alns))"
  by (simp add: length_build length_remdups_card_conv)

text \<open>The call when the dictionary is within the ceiling.\<close>

lemma extract_proceeds:
  assumes parse: "parse_region rt region pad = Inr (chr_name, chr_start, chr_end)"
    and rd: "read_region (Samfile rt bamname) chr_name chr_start chr_end = Inr (log1, fetches, alns)"
    and le: "int (length (build_dict alns)) \<le> max_read_pairs"
  shows "\<exists>r. extract_read_pairs rt bamname region prefix fns pad max_read_pairs = Inr r
     \<and> messages r =
         [(INFO, Extracting_reads bamname region pad (map fn_name fns))] @ log1
         @ [(INFO, Building_mate_dictionary (length alns)),
            (INFO, Examined_pairs (length (aln_pairs r))),
            (INFO, Extraction_counts (zip (map fn_name fns) (map snd (returned r))))]
     \<and> fetch_calls r = fetches
     \<and> mate_calls r = concat (map spec_lookups (dict_values rt (build_dict alns)))
     \<and> aln_pairs r =
         concat (map (spec_resolved (Samfile rt bamname)) (dict_values rt (build_dict alns)))"
proof -
  let ?bam = "Samfile rt bamname"
  let ?vs = "dict_values rt (build_dict alns)"
  have res: "resolve_mates rt ?bam alns (build_dict alns) max_read_pairs =
     Inr ([(INFO, Building_mate_dictionary (length alns))],
          concat (map spec_lookups ?vs), concat (map (spec_resolved ?bam) ?vs))"
    using dict_ok_build le by (rule resolve_mates_eq)
  from extract_read_pairs_run [OF parse rd res resolved_complete, of prefix fns]
  show ?thesis by auto
qed


lemma read_region_log:
  "read_region bam chr_name chr_start chr_end = Inr (log1, fetches, alns)
     \<Longrightarrow> set log1 \<subseteq> {(ERROR, Skipping_interval_too_close)}"
  by (auto simp add: read_region_def split: if_splits sum.splits)

lemma mset_over_dict:
  "mset (concat (map f (dict_values rt d))) = mset (concat (map (f \<circ> snd) d))"
  using mset_concat_map_cong [OF mset_dict_values, of f rt d] by simp

text \<open>
  C6. When the number of distinct query names among the fetched alignments that are not
  secondary exceeds \<open>max_read_pairs\<close>, the call logs that it skips the extraction and
  never builds the mate dictionary: it makes no lookup, resolves no pair, leaves every
  output file empty and returns the count 0 for every extraction function, whatever the
  functions are. When the number equals \<open>max_read_pairs\<close> the extraction proceeds: the
  skip is not logged and the pairs are resolved.
\<close>

theorem too_many_reads_skips_extraction:
  assumes parse: "parse_region rt region pad = Inr (chr_name, chr_start, chr_end)"
    and rd: "read_region (Samfile rt bamname) chr_name chr_start chr_end
               = Inr (log1, fetches, aln_list)"
  shows "(max_read_pairs < int (length (remdups (map qname aln_list))) \<longrightarrow>
           (\<exists>r. extract_read_pairs rt bamname region prefix extract_fns pad max_read_pairs = Inr r
              \<and> (INFO, Too_many_reads) \<in> set (messages r)
              \<and> (INFO, Building_mate_dictionary (length aln_list)) \<notin> set (messages r)
              \<and> mate_calls r = [] \<and> aln_pairs r = []
              \<and> length (ends r) = length extract_fns
              \<and> (\<forall>e \<in> set (ends r). written (fst e) = [] \<and> written (snd e) = [])
              \<and> map snd (returned r) = replicate (length extract_fns) 0))
       \<and> (int (length (remdups (map qname aln_list))) = max_read_pairs \<longrightarrow>
           (\<exists>r. extract_read_pairs rt bamname region prefix extract_fns pad max_read_pairs = Inr r
              \<and> (INFO, Too_many_reads) \<notin> set (messages r)
              \<and> (INFO, Building_mate_dictionary (length aln_list)) \<in> set (messages r)
              \<and> mset (aln_pairs r) =
                  mset (concat (map (spec_resolved (Samfile rt bamname) \<circ> snd)
                                  (build_dict aln_list)))))"
proof (intro conjI impI)
  assume "max_read_pairs < int (length (remdups (map qname aln_list)))"
  then have "max_read_pairs < int (length (build_dict aln_list))"
    by (simp add: length_build_dict)
  then have res: "resolve_mates rt (Samfile rt bamname) aln_list (build_dict aln_list)
      max_read_pairs = Inr ([(INFO, Too_many_reads)], [], [])"
    by (rule resolve_mates_skip)
  from extract_nothing [OF parse rd res, of prefix extract_fns] read_region_log [OF rd]
  show "\<exists>r. extract_read_pairs rt bamname region prefix extract_fns pad max_read_pairs = Inr r
              \<and> (INFO, Too_many_reads) \<in> set (messages r)
              \<and> (INFO, Building_mate_dictionary (length aln_list)) \<notin> set (messages r)
              \<and> mate_calls r = [] \<and> aln_pairs r = []
              \<and> length (ends r) = length extract_fns
              \<and> (\<forall>e \<in> set (ends r). written (fst e) = [] \<and> written (snd e) = [])
              \<and> map snd (returned r) = replicate (length extract_fns) 0"
    by fastforce
next
  assume "int (length (remdups (map qname aln_list))) = max_read_pairs"
  then have le: "int (length (build_dict aln_list)) \<le> max_read_pairs"
    by (simp add: length_build_dict)
  from extract_proceeds [OF parse rd le, of prefix extract_fns]
  obtain r where r: "extract_read_pairs rt bamname region prefix extract_fns pad max_read_pairs = Inr r"
    and m: "messages r =
         [(INFO, Extracting_reads bamname region pad (map fn_name extract_fns))] @ log1
         @ [(INFO, Building_mate_dictionary (length aln_list)),
            (INFO, Examined_pairs (length (aln_pairs r))),
            (INFO, Extraction_counts (zip (map fn_name extract_fns) (map snd (returned r))))]"
    and p: "aln_pairs r =
         concat (map (spec_resolved (Samfile rt bamname)) (dict_values rt (build_dict aln_list)))"
    by blast
  have "(INFO, Too_many_reads) \<notin> set (messages r)"
    using m read_region_log [OF rd] by auto
  moreover have "(INFO, Building_mate_dictionary (length aln_list)) \<in> set (messages r)"
    using m by simp
  moreover have "mset (aln_pairs r) =
      mset (concat (map (spec_resolved (Samfile rt bamname) \<circ> snd) (build_dict aln_list)))"
    unfolding p by (rule mset_over_dict)
  ultimately show "\<exists>r. extract_read_pairs rt bamname region prefix extract_fns pad max_read_pairs = Inr r
              \<and> (INFO, Too_many_reads) \<notin> set (messages r)
              \<and> (INFO, Building_mate_dictionary (length aln_list)) \<in> set (messages r)
              \<and> mset (aln_pairs r) =
                  mset (concat (map (spec_resolved (Samfile rt bamname) \<circ> snd)
                                  (build_dict aln_list)))"
    using r by blast
qed


theorem too_many_reads_skips_extraction_witness:
  "parse_region small_runtime ''chr1:100-200'' 0 = Inr (''chr1'', 100, 200)
   \<and> read_region small_bam ''chr1'' 100 200 = Inr ([], [(''chr1'', 100, 200)], small_reads)
   \<and> length (remdups (map qname small_reads)) = 4
   \<and> (\<exists>r. extract_read_pairs small_runtime ''in.bam'' ''chr1:100-200'' ''out'' [fn_all_pair] 0 3
             = Inr r
        \<and> (INFO, Too_many_reads) \<in> set (messages r)
        \<and> mate_calls r = [] \<and> aln_pairs r = [] \<and> map snd (returned r) = [0])
   \<and> (\<exists>r. extract_read_pairs small_runtime ''in.bam'' ''chr1:100-200'' ''out'' [fn_all_pair] 0 4
             = Inr r
        \<and> (INFO, Too_many_reads) \<notin> set (messages r)
        \<and> length (aln_pairs r) = 3)"
proof -
  note rd = small_region [folded small_bam_of [of "''in.bam''"]]
  note t3 = too_many_reads_skips_extraction
    [OF small_parse rd, of 3 "''out''" "[fn_all_pair]", unfolded small_names, THEN conjunct1]
  note t4 = too_many_reads_skips_extraction
    [OF small_parse rd, of 4 "''out''" "[fn_all_pair]", unfolded small_names, THEN conjunct2]
  from t3 have a: "\<exists>r. extract_read_pairs small_runtime ''in.bam'' ''chr1:100-200'' ''out''
        [fn_all_pair] 0 3 = Inr r
        \<and> (INFO, Too_many_reads) \<in> set (messages r)
        \<and> mate_calls r = [] \<and> aln_pairs r = [] \<and> map snd (returned r) = [0]"
    by auto
  from t4 obtain r where r: "extract_read_pairs small_runtime ''in.bam'' ''chr1:100-200'' ''out''
        [fn_all_pair] 0 4 = Inr r" "(INFO, Too_many_reads) \<notin> set (messages r)"
      and m: "mset (aln_pairs r) =
        mset (concat (map (spec_resolved (Samfile small_runtime ''in.bam'') \<circ> snd)
          (build_dict small_reads)))"
    by auto
  from m have "size (mset (aln_pairs r)) = 3"
    by (simp add: small_dict small_bam_of small_mates)
  then have "length (aln_pairs r) = 3"
    by simp
  with r have b: "\<exists>r. extract_read_pairs small_runtime ''in.bam'' ''chr1:100-200'' ''out''
        [fn_all_pair] 0 4 = Inr r
        \<and> (INFO, Too_many_reads) \<notin> set (messages r) \<and> length (aln_pairs r) = 3"
    by blast
  show ?thesis
    using small_parse small_region small_names a b by blast
qed

subsection \<open>The output channels of a call\<close>

lemma channels_ofD:
  assumes "channels_of prefix fns pairs r"
  shows "length (ends r) = length fns" and "length (returned r) = length fns"
    and "i < length fns \<Longrightarrow> name (fst (ends r ! i)) = prefix @ ''_'' @ fn_name (fns ! i) @ ''_1.fq''"
    and "i < length fns \<Longrightarrow> name (snd (ends r ! i)) = prefix @ ''_'' @ fn_name (fns ! i) @ ''_2.fq''"
    and "i < length fns \<Longrightarrow> closed (fst (ends r ! i))"
    and "i < length fns \<Longrightarrow> closed (snd (ends r ! i))"
    and "i < length fns \<Longrightarrow> written (fst (ends r ! i)) =
             concat (map (\<lambda>(a, b). fastq_text a) (selected (fns ! i) pairs))"
    and "i < length fns \<Longrightarrow> written (snd (ends r ! i)) =
             concat (map (\<lambda>(a, b). fastq_text b) (selected (fns ! i) pairs))"
    and "i < length fns \<Longrightarrow> returned r ! i =
             ((prefix @ ''_'' @ fn_name (fns ! i) @ ''_1.fq'',
               prefix @ ''_'' @ fn_name (fns ! i) @ ''_2.fq''),
              length (selected (fns ! i) pairs))"
  using assms unfolding channels_of_def by simp_all

lemma extract_run_channels:
  assumes "parse_region rt region pad = Inr (chr_name, chr_start, chr_end)"
    and "read_region (Samfile rt bamname) chr_name chr_start chr_end = Inr (log1, fetches, alns)"
    and "resolve_mates rt (Samfile rt bamname) alns (build_dict alns) max_read_pairs
                = Inr (log2, calls, pairs)"
    and "\<forall>p \<in> set pairs. \<exists>a b. p = (Some a, Some b)"
  shows "\<exists>r. extract_read_pairs rt bamname region prefix fns pad max_read_pairs = Inr r
     \<and> aln_pairs r = pairs \<and> channels_of prefix fns pairs r"
  using extract_read_pairs_run [OF assms, of prefix fns]
  unfolding channels_of_def by (elim exE conjE) (intro exI conjI; assumption)

lemma extract_channels:
  assumes parse: "parse_region rt region pad = Inr (chr_name, chr_start, chr_end)"
    and rd: "read_region (Samfile rt bamname) chr_name chr_start chr_end = Inr (log1, fetches, alns)"
  shows "\<exists>r. extract_read_pairs rt bamname region prefix fns pad max_read_pairs = Inr r
     \<and> (\<forall>p \<in> set (aln_pairs r). \<exists>a b. p = (Some a, Some b))
     \<and> channels_of prefix fns (aln_pairs r) r"
proof -
  let ?bam = "Samfile rt bamname"
  let ?d = "build_dict alns"
  have "\<exists>log2 calls pairs.
      resolve_mates rt ?bam alns ?d max_read_pairs = Inr (log2, calls, pairs)
      \<and> (\<forall>p \<in> set pairs. \<exists>a b. p = (Some a, Some b))"
  proof (cases "int (length ?d) \<le> max_read_pairs")
    case True
    show ?thesis
      by (intro exI conjI, rule resolve_mates_eq [OF dict_ok_build True], rule resolved_complete)
  next
    case False
    then have "max_read_pairs < int (length ?d)" by simp
    from resolve_mates_skip [OF this] show ?thesis by simp
  qed
  then obtain log2 calls pairs where
    res: "resolve_mates rt ?bam alns ?d max_read_pairs = Inr (log2, calls, pairs)"
    and complete: "\<forall>p \<in> set pairs. \<exists>a b. p = (Some a, Some b)"
    by (elim exE conjE)
  from extract_run_channels [OF parse rd res complete, of prefix fns]
  obtain r where r: "extract_read_pairs rt bamname region prefix fns pad max_read_pairs = Inr r"
    and p: "aln_pairs r = pairs" and c: "channels_of prefix fns pairs r"
    by (elim exE conjE)
  from r complete c show ?thesis
    unfolding p [symmetric] by blast
qed

subsection \<open>One lookup for each entry with one slot filled\<close>

lemma spec_lookups_slot: "a \<in> set (spec_lookups p) \<Longrightarrow> fst p = Some a \<or> snd p = Some a"
  by (cases p rule: spec_lookups.cases) auto

lemma lookups_elsewhere:
  assumes ok: "dict_ok d" and e: "(k, p) \<in> set d" and q: "(k', p') \<in> set d"
    and a: "fst p = Some a \<or> snd p = Some a" and a': "a \<in> set (spec_lookups p')"
  shows "k' = k" and "p' = p"
proof -
  from spec_lookups_slot [OF a'] have "qname a = k'"
    by (rule dict_ok_entry(2) [OF ok q])
  moreover from a have "qname a = k"
    by (rule dict_ok_entry(2) [OF ok e])
  ultimately show "k' = k" by simp
  with ok e q show "p' = p" by (auto dest: dict_ok_unique)
qed

lemma count_concat_absent:
  "\<forall>x \<in> set xs. a \<notin> set (f x) \<Longrightarrow> count (mset (concat (map f xs))) a = 0"
  by (induction xs) (simp_all add: count_eq_zero_iff)

lemma one_lookup_per_entry:
  assumes ok: "dict_ok d" and e: "(k, p) \<in> set d"
    and p: "p = (Some a, None) \<or> p = (None, Some a)"
  shows "count (mset (concat (map (spec_lookups \<circ> snd) d))) a = 1"
proof -
  from e obtain d1 d2 where d: "d = d1 @ (k, p) # d2"
    by (auto dest: split_list)
  from ok have dist: "distinct (map fst d)"
    by (simp add: dict_ok_def)
  from p have slot: "fst p = Some a \<or> snd p = Some a"
    by auto
  have other: "a \<notin> set ((spec_lookups \<circ> snd) x)" if x: "x \<in> set d1 \<union> set d2" for x
  proof
    assume "a \<in> set ((spec_lookups \<circ> snd) x)"
    then have a': "a \<in> set (spec_lookups (snd x))" by simp
    from x have q: "(fst x, snd x) \<in> set d" by (auto simp add: d)
    from lookups_elsewhere(1) [OF ok e q slot a'] have "fst x = k" .
    with x dist show False
      by (auto simp add: d image_iff)
  qed
  have "count (mset (concat (map (spec_lookups \<circ> snd) d1))) a = 0"
    "count (mset (concat (map (spec_lookups \<circ> snd) d2))) a = 0"
    using other by (simp_all add: count_concat_absent)
  moreover have "count (mset (spec_lookups p)) a = 1"
    using p by auto
  ultimately show ?thesis
    by (simp add: d)
qed

lemma no_lookup_for_full_entry:
  assumes ok: "dict_ok d" and e: "(k, (Some a, Some b)) \<in> set d"
  shows "a \<notin> set (concat (map (spec_lookups \<circ> snd) d))"
    and "b \<notin> set (concat (map (spec_lookups \<circ> snd) d))"
proof -
  have "x \<notin> set (concat (map (spec_lookups \<circ> snd) d))" if x: "x = a \<or> x = b" for x
  proof
    assume "x \<in> set (concat (map (spec_lookups \<circ> snd) d))"
    then obtain k' p' where q: "(k', p') \<in> set d" and a': "x \<in> set (spec_lookups p')"
      by auto
    from x have slot: "fst (Some a, Some b) = Some x \<or> snd (Some a, Some b) = Some x"
      by auto
    from lookups_elsewhere(2) [OF ok e q slot a'] have "p' = (Some a, Some b)" .
    with a' show False by simp
  qed
  then show "a \<notin> set (concat (map (spec_lookups \<circ> snd) d))"
    and "b \<notin> set (concat (map (spec_lookups \<circ> snd) d))"
    by simp_all
qed

lemma set_over_dict:
  "set (concat (map f (dict_values rt d))) = set (concat (map (f \<circ> snd) d))"
  using arg_cong [OF mset_over_dict [of f rt d], of set_mset] by simp

text \<open>
  C7. When the dictionary is within the ceiling, the call returns normally and the mates
  are resolved entry by entry, as \<open>spec_lookups\<close> and \<open>spec_resolved\<close> word it: up to the
  order in which the dictionary hands out its entries, the lookups made are one for each
  entry with one slot filled and none for the others, and the resolved pairs are the
  entries with both slots filled and, for the entries with one slot filled, the pair
  completed by the mate when the lookup finds one; an entry whose lookup fails adds
  nothing. So the read of an entry with one slot filled is looked up exactly once, a
  mate that is found gives the completed pair, and an entry with both slots filled is in
  the list with neither of its reads looked up. The output files hold the reads of the
  resolved pairs and nothing else, so a dropped pair is in none of them.
\<close>

theorem mates_resolved_entry_by_entry:
  assumes parse: "parse_region rt region pad = Inr (chr_name, chr_start, chr_end)"
    and rd: "read_region (Samfile rt bamname) chr_name chr_start chr_end
               = Inr (log1, fetches, aln_list)"
    and le: "int (length (build_dict aln_list)) \<le> max_read_pairs"
  shows "\<exists>r. extract_read_pairs rt bamname region prefix extract_fns pad max_read_pairs = Inr r
     \<and> mset (mate_calls r) = mset (concat (map (spec_lookups \<circ> snd) (build_dict aln_list)))
     \<and> mset (aln_pairs r) =
         mset (concat (map (spec_resolved (Samfile rt bamname) \<circ> snd) (build_dict aln_list)))
     \<and> (\<forall>(k, p) \<in> set (build_dict aln_list). \<forall>a.
           p = (Some a, None) \<or> p = (None, Some a) \<longrightarrow> count_list (mate_calls r) a = 1)
     \<and> (\<forall>(k, p) \<in> set (build_dict aln_list). \<forall>a m.
           bam_mate (Samfile rt bamname) a = Some m \<longrightarrow>
             (p = (Some a, None) \<longrightarrow> (Some a, Some m) \<in> set (aln_pairs r))
           \<and> (p = (None, Some a) \<longrightarrow> (Some m, Some a) \<in> set (aln_pairs r)))
     \<and> (\<forall>(k, p) \<in> set (build_dict aln_list). \<forall>a b.
           p = (Some a, Some b) \<longrightarrow>
             a \<notin> set (mate_calls r) \<and> b \<notin> set (mate_calls r) \<and> p \<in> set (aln_pairs r))
     \<and> (\<forall>i < length extract_fns.
           written (fst (ends r ! i)) =
             concat (map (\<lambda>(a, b). fastq_text a) (selected (extract_fns ! i) (aln_pairs r)))
         \<and> written (snd (ends r ! i)) =
             concat (map (\<lambda>(a, b). fastq_text b) (selected (extract_fns ! i) (aln_pairs r))))"
proof -
  let ?bam = "Samfile rt bamname"
  let ?d = "build_dict aln_list"
  from extract_proceeds [OF parse rd le, of prefix extract_fns]
  obtain r where r: "extract_read_pairs rt bamname region prefix extract_fns pad max_read_pairs = Inr r"
    and calls: "mate_calls r = concat (map spec_lookups (dict_values rt ?d))"
    and pairs: "aln_pairs r = concat (map (spec_resolved ?bam) (dict_values rt ?d))"
    by (elim exE conjE)
  from extract_channels [OF parse rd, of prefix extract_fns max_read_pairs]
  have ch: "channels_of prefix extract_fns (aln_pairs r) r"
    unfolding r by (elim exE conjE) simp
  note ok = dict_ok_build [of aln_list]
  have m1: "mset (mate_calls r) = mset (concat (map (spec_lookups \<circ> snd) ?d))"
    unfolding calls by (rule mset_over_dict)
  have m2: "mset (aln_pairs r) = mset (concat (map (spec_resolved ?bam \<circ> snd) ?d))"
    unfolding pairs by (rule mset_over_dict)
  have one: "\<forall>(k, p) \<in> set ?d. \<forall>a.
           p = (Some a, None) \<or> p = (None, Some a) \<longrightarrow> count_list (mate_calls r) a = 1"
  proof (intro ballI, clarify)
    fix k p a
    assume "(k, p) \<in> set ?d" "p = (Some a, None) \<or> p = (None, Some a)"
    from one_lookup_per_entry [OF ok this]
    show "count_list (mate_calls r) a = 1"
      by (simp add: m1 flip: count_mset)
  qed
  have t: "set (aln_pairs r) = set (concat (map (spec_resolved ?bam \<circ> snd) ?d))"
    unfolding pairs by (rule set_over_dict)
  have found: "\<forall>(k, p) \<in> set ?d. \<forall>a m.
           bam_mate ?bam a = Some m \<longrightarrow>
             (p = (Some a, None) \<longrightarrow> (Some a, Some m) \<in> set (aln_pairs r))
           \<and> (p = (None, Some a) \<longrightarrow> (Some m, Some a) \<in> set (aln_pairs r))"
    unfolding t by force
  have full: "\<forall>(k, p) \<in> set ?d. \<forall>a b.
           p = (Some a, Some b) \<longrightarrow>
             a \<notin> set (mate_calls r) \<and> b \<notin> set (mate_calls r) \<and> p \<in> set (aln_pairs r)"
  proof (intro ballI, clarify)
    fix k a b
    assume e: "(k, (Some a, Some b)) \<in> set ?d"
    have s: "set (mate_calls r) = set (concat (map (spec_lookups \<circ> snd) ?d))"
      unfolding calls by (rule set_over_dict)
    have t: "set (aln_pairs r) = set (concat (map (spec_resolved ?bam \<circ> snd) ?d))"
      unfolding pairs by (rule set_over_dict)
    from e have "(Some a, Some b) \<in> set (aln_pairs r)"
      unfolding t by force
    with no_lookup_for_full_entry [OF ok e]
    show "a \<notin> set (mate_calls r) \<and> b \<notin> set (mate_calls r)
        \<and> (Some a, Some b) \<in> set (aln_pairs r)"
      unfolding s by simp
  qed
  have w: "\<forall>i < length extract_fns.
           written (fst (ends r ! i)) =
             concat (map (\<lambda>(a, b). fastq_text a) (selected (extract_fns ! i) (aln_pairs r)))
         \<and> written (snd (ends r ! i)) =
             concat (map (\<lambda>(a, b). fastq_text b) (selected (extract_fns ! i) (aln_pairs r)))"
    by (simp add: channels_ofD [OF ch])
  show ?thesis
    by (intro exI conjI) (rule r m1 m2 one found full w)+
qed

theorem mates_resolved_entry_by_entry_witness:
  "parse_region small_runtime ''chr1:100-200'' 0 = Inr (''chr1'', 100, 200)
   \<and> read_region small_bam ''chr1'' 100 200 = Inr ([], [(''chr1'', 100, 200)], small_reads)
   \<and> length (build_dict small_reads) = 4
   \<and> (\<exists>r. extract_read_pairs small_runtime ''in.bam'' ''chr1:100-200'' ''out''
             [fn_discordant 300 400] 0 1000 = Inr r
        \<and> length (mate_calls r) = 2
        \<and> count_list (mate_calls r) (read ''p3'' True False 500) = 1
        \<and> count_list (mate_calls r) (read ''p4'' True False 0) = 1
        \<and> read ''p1'' True False 350 \<notin> set (mate_calls r)
        \<and> length (aln_pairs r) = 3
        \<and> (Some (read ''p1'' True False 350), Some (read ''p1'' False True (- 350)))
             \<in> set (aln_pairs r)
        \<and> (Some (read ''p4'' True False 0), Some (read ''p4'' False True 0))
             \<in> set (aln_pairs r))"
proof -
  note rd = small_region [folded small_bam_of [of "''in.bam''"]]
  have le: "int (length (build_dict small_reads)) \<le> 1000"
    by (simp add: small_dict)
  from mates_resolved_entry_by_entry [OF small_parse rd le, of "''out''" "[fn_discordant 300 400]",
      unfolded small_dict small_bam_of]
  obtain r where r: "extract_read_pairs small_runtime ''in.bam'' ''chr1:100-200'' ''out''
             [fn_discordant 300 400] 0 1000 = Inr r"
    and m1: "mset (mate_calls r) = mset (concat (map (spec_lookups \<circ> snd)
      [(''p1'', Some (read ''p1'' True False 350), Some (read ''p1'' False True (- 350))),
       (''p2'', Some (read ''p2'' True False 900), Some (read ''p2'' False True (- 900))),
       (''p3'', Some (read ''p3'' True False 500), None),
       (''p4'', Some (read ''p4'' True False 0), None)]))"
    and m2: "mset (aln_pairs r) = mset (concat (map (spec_resolved small_bam \<circ> snd)
      [(''p1'', Some (read ''p1'' True False 350), Some (read ''p1'' False True (- 350))),
       (''p2'', Some (read ''p2'' True False 900), Some (read ''p2'' False True (- 900))),
       (''p3'', Some (read ''p3'' True False 500), None),
       (''p4'', Some (read ''p4'' True False 0), None)]))"
    and one: "\<forall>(k, p) \<in> set
      [(''p1'', Some (read ''p1'' True False 350), Some (read ''p1'' False True (- 350))),
       (''p2'', Some (read ''p2'' True False 900), Some (read ''p2'' False True (- 900))),
       (''p3'', Some (read ''p3'' True False 500), None),
       (''p4'', Some (read ''p4'' True False 0), None)]. \<forall>a.
           p = (Some a, None) \<or> p = (None, Some a) \<longrightarrow> count_list (mate_calls r) a = 1"
    and found: "\<forall>(k, p) \<in> set
      [(''p1'', Some (read ''p1'' True False 350), Some (read ''p1'' False True (- 350))),
       (''p2'', Some (read ''p2'' True False 900), Some (read ''p2'' False True (- 900))),
       (''p3'', Some (read ''p3'' True False 500), None),
       (''p4'', Some (read ''p4'' True False 0), None)]. \<forall>a m.
           bam_mate small_bam a = Some m \<longrightarrow>
             (p = (Some a, None) \<longrightarrow> (Some a, Some m) \<in> set (aln_pairs r))
           \<and> (p = (None, Some a) \<longrightarrow> (Some m, Some a) \<in> set (aln_pairs r))"
    and full: "\<forall>(k, p) \<in> set
      [(''p1'', Some (read ''p1'' True False 350), Some (read ''p1'' False True (- 350))),
       (''p2'', Some (read ''p2'' True False 900), Some (read ''p2'' False True (- 900))),
       (''p3'', Some (read ''p3'' True False 500), None),
       (''p4'', Some (read ''p4'' True False 0), None)]. \<forall>a b.
           p = (Some a, Some b) \<longrightarrow>
             a \<notin> set (mate_calls r) \<and> b \<notin> set (mate_calls r) \<and> p \<in> set (aln_pairs r)"
    by (elim exE conjE)
  have n: "length (build_dict small_reads) = 4"
    by (simp add: small_dict)
  have c1: "length (mate_calls r) = 2"
    using arg_cong [OF m1, of size] by simp
  have c2: "count_list (mate_calls r) (read ''p3'' True False 500) = 1"
    "count_list (mate_calls r) (read ''p4'' True False 0) = 1"
    using one by simp_all
  have c3: "read ''p1'' True False 350 \<notin> set (mate_calls r)"
    "(Some (read ''p1'' True False 350), Some (read ''p1'' False True (- 350)))
        \<in> set (aln_pairs r)"
    using full by simp_all
  have c4: "length (aln_pairs r) = 3"
    using arg_cong [OF m2, of size] by (simp add: small_mates)
  have c5: "(Some (read ''p4'' True False 0), Some (read ''p4'' False True 0))
        \<in> set (aln_pairs r)"
    using found small_mates(2) by simp
  show ?thesis
    by (intro exI conjI) (rule small_parse small_region n r c1 c2 c3 c4 c5)+
qed

lemma small_call_skipped:
  "\<exists>r. extract_read_pairs small_runtime bamname ''chr1:100-200'' prefix fns 0 3 = Inr r
     \<and> mate_calls r = [] \<and> aln_pairs r = []"
proof -
  note rd = small_region [folded small_bam_of [of bamname]]
  have "3 < int (length (build_dict small_reads))"
    by (simp add: small_dict)
  then have res: "resolve_mates small_runtime (Samfile small_runtime bamname) small_reads
      (build_dict small_reads) 3 = Inr ([(INFO, Too_many_reads)], [], [])"
    by (rule resolve_mates_skip)
  from extract_nothing [OF small_parse rd res, of prefix fns]
  show ?thesis by (elim exE conjE) (intro exI conjI; assumption)
qed

text \<open>
  Above the ceiling the loop does not run, so the statement does not hold of every call:
  with the ceiling at 3 and the four query names of the small BAM file, the entry of
  \<open>p3\<close> has one slot filled and no lookup is made, and the entry of \<open>p1\<close> has both
  slots filled and is not in the list of resolved pairs.
\<close>

theorem lookups_skipped_above_ceiling_counterexample:
  "read_region small_bam ''chr1'' 100 200 = Inr ([], [(''chr1'', 100, 200)], small_reads)
   \<and> map_of (build_dict small_reads) ''p3''
     = Some (Some (read ''p3'' True False 500), None)
   \<and> map_of (build_dict small_reads) ''p1''
     = Some (Some (read ''p1'' True False 350), Some (read ''p1'' False True (- 350)))
   \<and> map_sum id mate_calls
       (extract_read_pairs small_runtime ''in.bam'' ''chr1:100-200'' ''out'' [fn_all_pair] 0 3)
     = Inr []
   \<and> map_sum id aln_pairs
       (extract_read_pairs small_runtime ''in.bam'' ''chr1:100-200'' ''out'' [fn_all_pair] 0 3)
     = Inr []"
proof -
  from small_call_skipped [of "''in.bam''" "''out''" "[fn_all_pair]"]
  obtain r where r: "extract_read_pairs small_runtime ''in.bam'' ''chr1:100-200'' ''out''
      [fn_all_pair] 0 3 = Inr r" and e: "mate_calls r = []" "aln_pairs r = []"
    by (elim exE conjE)
  show ?thesis
    unfolding small_dict small_region r by (simp add: e)
qed

subsection \<open>Complete pairs and the channel of \<open>all_pair\<close>\<close>

lemma small_call_pairs:
  assumes "extract_read_pairs small_runtime bamname ''chr1:100-200'' prefix fns 0 1000 = Inr r"
  shows "aln_pairs r =
     [(Some (read ''p1'' True False 350), Some (read ''p1'' False True (- 350))),
      (Some (read ''p2'' True False 900), Some (read ''p2'' False True (- 900))),
      (Some (read ''p4'' True False 0), Some (read ''p4'' False True 0))]"
proof -
  note rd = small_region [folded small_bam_of [of bamname]]
  have le: "int (length (build_dict small_reads)) \<le> 1000"
    by (simp add: small_dict)
  from extract_proceeds [OF small_parse rd le, of prefix fns]
  have "aln_pairs r = concat (map (spec_resolved (Samfile small_runtime bamname))
      (dict_values small_runtime (build_dict small_reads)))"
    unfolding assms by (elim exE conjE) simp
  also have "dict_values small_runtime (build_dict small_reads) =
     [(Some (read ''p1'' True False 350), Some (read ''p1'' False True (- 350))),
      (Some (read ''p2'' True False 900), Some (read ''p2'' False True (- 900))),
      (Some (read ''p3'' True False 500), None),
      (Some (read ''p4'' True False 0), None)]"
    by (simp add: small_dict dict_values_def small_runtime_def)
  finally show ?thesis
    by (simp add: small_bam_of small_mates)
qed

lemma complete_pairs_all:
  "\<forall>p \<in> set ps. \<exists>a b. p = (Some a, Some b)
     \<Longrightarrow> map (\<lambda>(a, b). (Some a, Some b)) (complete_pairs ps) = ps"
  by (induction ps) (auto simp add: complete_pairs_def)

lemma selected_all_pair:
  "fn_call f = all_pair \<Longrightarrow> selected f ps = complete_pairs ps"
  by (simp add: selected_def all_pair_def)

lemma fastq_text_eq:
  "fastq_text a =
     ''@'' @ qname a @ ''/'' @ (if is_read1 a then ''1'' else ''2'') @ [CHR 0x0A]
       @ (if is_reverse a then rev (compl (upper (seq a))) else upper (seq a))
       @ [CHR 0x0A] @ ''+'' @ [CHR 0x0A]
       @ (if is_reverse a then rev (qual a) else qual a) @ [CHR 0x0A]"
  by (simp add: fastq_text_def fastq_record_def get_sequence_quality_def fmt_d_1 fmt_d_2)

text \<open>
  C8. Every pair of the resolved list has both slots filled, so the filter stage never
  meets an empty slot (the call returns normally); \<open>all_pair\<close> is true on every pair
  of arguments; and an output channel whose function is \<open>all_pair\<close> receives every
  resolved pair: its count is the length of the list, and its two files hold, for every
  pair of the list in order, the four lines of the first and of the second read: the
  header \<open>@name/1\<close> or \<open>@name/2\<close>, the sequence, \<open>+\<close> and the quality, each ended by a
  newline.
\<close>

theorem resolved_pairs_complete_all_pair_writes_all:
  assumes parse: "parse_region rt region pad = Inr (chr_name, chr_start, chr_end)"
    and rd: "read_region (Samfile rt bamname) chr_name chr_start chr_end
               = Inr (log1, fetches, aln_list)"
  shows "all_pair aln mate
     \<and> (\<exists>r. extract_read_pairs rt bamname region prefix extract_fns pad max_read_pairs = Inr r
          \<and> (\<forall>p \<in> set (aln_pairs r). \<exists>a b. p = (Some a, Some b))
          \<and> map (\<lambda>(a, b). (Some a, Some b)) (complete_pairs (aln_pairs r)) = aln_pairs r
          \<and> (\<forall>i < length extract_fns. fn_call (extract_fns ! i) = all_pair \<longrightarrow>
                snd (returned r ! i) = length (aln_pairs r)
              \<and> written (fst (ends r ! i)) =
                  concat (map (\<lambda>(a, b).
                    ''@'' @ qname a @ ''/'' @ (if is_read1 a then ''1'' else ''2'') @ [CHR 0x0A]
                    @ (if is_reverse a then rev (compl (upper (seq a))) else upper (seq a))
                    @ [CHR 0x0A] @ ''+'' @ [CHR 0x0A]
                    @ (if is_reverse a then rev (qual a) else qual a) @ [CHR 0x0A])
                    (complete_pairs (aln_pairs r)))
              \<and> written (snd (ends r ! i)) =
                  concat (map (\<lambda>(a, b).
                    ''@'' @ qname b @ ''/'' @ (if is_read1 b then ''1'' else ''2'') @ [CHR 0x0A]
                    @ (if is_reverse b then rev (compl (upper (seq b))) else upper (seq b))
                    @ [CHR 0x0A] @ ''+'' @ [CHR 0x0A]
                    @ (if is_reverse b then rev (qual b) else qual b) @ [CHR 0x0A])
                    (complete_pairs (aln_pairs r)))))"
proof -
  from extract_channels [OF parse rd, of prefix extract_fns max_read_pairs]
  obtain r where r: "extract_read_pairs rt bamname region prefix extract_fns pad max_read_pairs = Inr r"
    and c: "\<forall>p \<in> set (aln_pairs r). \<exists>a b. p = (Some a, Some b)"
    and ch: "channels_of prefix extract_fns (aln_pairs r) r"
    by (elim exE conjE)
  note d = channels_ofD [OF ch]
  note m = complete_pairs_all [OF c]
  have len: "length (complete_pairs (aln_pairs r)) = length (aln_pairs r)"
    using arg_cong [OF m, of length] by simp
  have w: "\<forall>i < length extract_fns. fn_call (extract_fns ! i) = all_pair \<longrightarrow>
                snd (returned r ! i) = length (aln_pairs r)
              \<and> written (fst (ends r ! i)) =
                  concat (map (\<lambda>(a, b).
                    ''@'' @ qname a @ ''/'' @ (if is_read1 a then ''1'' else ''2'') @ [CHR 0x0A]
                    @ (if is_reverse a then rev (compl (upper (seq a))) else upper (seq a))
                    @ [CHR 0x0A] @ ''+'' @ [CHR 0x0A]
                    @ (if is_reverse a then rev (qual a) else qual a) @ [CHR 0x0A])
                    (complete_pairs (aln_pairs r)))
              \<and> written (snd (ends r ! i)) =
                  concat (map (\<lambda>(a, b).
                    ''@'' @ qname b @ ''/'' @ (if is_read1 b then ''1'' else ''2'') @ [CHR 0x0A]
                    @ (if is_reverse b then rev (compl (upper (seq b))) else upper (seq b))
                    @ [CHR 0x0A] @ ''+'' @ [CHR 0x0A]
                    @ (if is_reverse b then rev (qual b) else qual b) @ [CHR 0x0A])
                    (complete_pairs (aln_pairs r)))"
    by (simp add: d selected_all_pair len fastq_text_eq)
  have a: "all_pair aln mate" by (simp add: all_pair_def)
  show ?thesis
    by (intro exI conjI) (rule a r c m w)+
qed

theorem resolved_pairs_complete_all_pair_writes_all_witness:
  "parse_region small_runtime ''chr1:100-200'' 0 = Inr (''chr1'', 100, 200)
   \<and> read_region small_bam ''chr1'' 100 200 = Inr ([], [(''chr1'', 100, 200)], small_reads)
   \<and> all_pair (read ''p1'' True False 350) (read ''p1'' False True (- 350))
   \<and> (\<exists>r. extract_read_pairs small_runtime ''in.bam'' ''chr1:100-200'' ''out''
             [fn_discordant 300 400, fn_all_pair] 0 1000 = Inr r
        \<and> aln_pairs r =
            [(Some (read ''p1'' True False 350), Some (read ''p1'' False True (- 350))),
             (Some (read ''p2'' True False 900), Some (read ''p2'' False True (- 900))),
             (Some (read ''p4'' True False 0), Some (read ''p4'' False True 0))]
        \<and> snd (returned r ! 1) = 3
        \<and> written (fst (ends r ! 1)) =
            ''@p1/1'' @ [CHR 0x0A] @ ''ACGTN'' @ [CHR 0x0A] @ ''+'' @ [CHR 0x0A] @ ''ABCDE'' @ [CHR 0x0A]
            @ ''@p2/1'' @ [CHR 0x0A] @ ''ACGTN'' @ [CHR 0x0A] @ ''+'' @ [CHR 0x0A] @ ''ABCDE'' @ [CHR 0x0A]
            @ ''@p4/1'' @ [CHR 0x0A] @ ''ACGTN'' @ [CHR 0x0A] @ ''+'' @ [CHR 0x0A] @ ''ABCDE'' @ [CHR 0x0A]
        \<and> written (snd (ends r ! 1)) =
            ''@p1/2'' @ [CHR 0x0A] @ ''NACGT'' @ [CHR 0x0A] @ ''+'' @ [CHR 0x0A] @ ''EDCBA'' @ [CHR 0x0A]
            @ ''@p2/2'' @ [CHR 0x0A] @ ''NACGT'' @ [CHR 0x0A] @ ''+'' @ [CHR 0x0A] @ ''EDCBA'' @ [CHR 0x0A]
            @ ''@p4/2'' @ [CHR 0x0A] @ ''NACGT'' @ [CHR 0x0A] @ ''+'' @ [CHR 0x0A] @ ''EDCBA'' @ [CHR 0x0A])"
proof -
  note rd = small_region [folded small_bam_of [of "''in.bam''"]]
  from resolved_pairs_complete_all_pair_writes_all [OF small_parse rd,
      of "read ''p1'' True False 350" "read ''p1'' False True (- 350)" "''out''"
        "[fn_discordant 300 400, fn_all_pair]" 1000]
  obtain r where a: "all_pair (read ''p1'' True False 350) (read ''p1'' False True (- 350))"
    and r: "extract_read_pairs small_runtime ''in.bam'' ''chr1:100-200'' ''out''
             [fn_discordant 300 400, fn_all_pair] 0 1000 = Inr r"
    and w: "\<forall>i < length [fn_discordant 300 400, fn_all_pair].
              fn_call ([fn_discordant 300 400, fn_all_pair] ! i) = all_pair \<longrightarrow>
                snd (returned r ! i) = length (aln_pairs r)
              \<and> written (fst (ends r ! i)) =
                  concat (map (\<lambda>(a, b).
                    ''@'' @ qname a @ ''/'' @ (if is_read1 a then ''1'' else ''2'') @ [CHR 0x0A]
                    @ (if is_reverse a then rev (compl (upper (seq a))) else upper (seq a))
                    @ [CHR 0x0A] @ ''+'' @ [CHR 0x0A]
                    @ (if is_reverse a then rev (qual a) else qual a) @ [CHR 0x0A])
                    (complete_pairs (aln_pairs r)))
              \<and> written (snd (ends r ! i)) =
                  concat (map (\<lambda>(a, b).
                    ''@'' @ qname b @ ''/'' @ (if is_read1 b then ''1'' else ''2'') @ [CHR 0x0A]
                    @ (if is_reverse b then rev (compl (upper (seq b))) else upper (seq b))
                    @ [CHR 0x0A] @ ''+'' @ [CHR 0x0A]
                    @ (if is_reverse b then rev (qual b) else qual b) @ [CHR 0x0A])
                    (complete_pairs (aln_pairs r)))"
    by (elim exE conjE)
  note p = small_call_pairs [OF r]
  have u: "upper ''acgtn'' = ''ACGTN''"
    by (simp add: upper_def upper_char_simps)
  have k: "compl ''ACGTN'' = ''TGCAN''"
    by (simp add: compl_def compl_table_nth)
  from w [rule_format, of 1]
  have c: "snd (returned r ! 1) = 3"
    "written (fst (ends r ! 1)) =
            ''@p1/1'' @ [CHR 0x0A] @ ''ACGTN'' @ [CHR 0x0A] @ ''+'' @ [CHR 0x0A] @ ''ABCDE'' @ [CHR 0x0A]
            @ ''@p2/1'' @ [CHR 0x0A] @ ''ACGTN'' @ [CHR 0x0A] @ ''+'' @ [CHR 0x0A] @ ''ABCDE'' @ [CHR 0x0A]
            @ ''@p4/1'' @ [CHR 0x0A] @ ''ACGTN'' @ [CHR 0x0A] @ ''+'' @ [CHR 0x0A] @ ''ABCDE'' @ [CHR 0x0A]"
    "written (snd (ends r ! 1)) =
            ''@p1/2'' @ [CHR 0x0A] @ ''NACGT'' @ [CHR 0x0A] @ ''+'' @ [CHR 0x0A] @ ''EDCBA'' @ [CHR 0x0A]
            @ ''@p2/2'' @ [CHR 0x0A] @ ''NACGT'' @ [CHR 0x0A] @ ''+'' @ [CHR 0x0A] @ ''EDCBA'' @ [CHR 0x0A]
            @ ''@p4/2'' @ [CHR 0x0A] @ ''NACGT'' @ [CHR 0x0A] @ ''+'' @ [CHR 0x0A] @ ''EDCBA'' @ [CHR 0x0A]"
    by (simp_all add: p fn_all_pair_def complete_pairs_def read_def u k)
  show ?thesis
    by (intro exI conjI) (rule small_parse small_region a r p c)+
qed

subsection \<open>The output files\<close>











end
